theory Spec2Isabelle
  imports Main
begin

section \<open>Data model\<close>

text \<open>
  The types of \<^verbatim>\<open>types/CoveyTownSocket\<close> as \<^verbatim>\<open>QuantumTicTacToeGame.ts\<close> uses them.
  A player identifier is a string; a seat, a winner and every other optional field is an
  option (\<open>None\<close> is \<^verbatim>\<open>undefined\<close>). Rows and columns are integers: the moves a caller
  submits are typed \<^verbatim>\<open>0 | 1 | 2\<close>, and the passes the orchestrator synthesizes carry \<open>-1\<close>.
  The visibility map is a function of board, row and column; what JavaScript does when
  a move outside that type makes the program index the 3 by 3 arrays out of range is
  not modelled.
\<close>

type_synonym PlayerID = string

datatype GameStatus = IN_PROGRESS | WAITING_TO_START | OVER

datatype GamePiece = PieceX | PieceO

datatype BoardId = BoardA | BoardB | BoardC

datatype Error =
    PLAYER_ALREADY_IN_GAME_MESSAGE
  | GAME_FULL_MESSAGE
  | PLAYER_NOT_IN_GAME_MESSAGE
  | INVALID_MOVE_MESSAGE
  | MOVE_NOT_YOUR_TURN_MESSAGE
  | GAME_NOT_IN_PROGRESS_MESSAGE
  | BOARD_ILLEGAL_MOVE

record TicTacToeMove =
  row :: int
  col :: int
  gamePiece :: GamePiece

record QuantumTicTacToeMove = TicTacToeMove +
  board :: BoardId

text \<open>\<^verbatim>\<open>GameMove<QuantumTicTacToeMove>\<close>; its \<^verbatim>\<open>gameID\<close> is never read by the rules.\<close>

record GameMove =
  playerID :: PlayerID
  move :: QuantumTicTacToeMove

text \<open>
  A single board: the fields of \<^verbatim>\<open>game.state\<close> that the orchestrator reads
  (\<open>t_status\<close>, \<open>t_moves\<close> and \<open>t_winner\<close>, a player identifier that
  \<^verbatim>\<open>_checkForWins\<close> compares with the seats of the match), the board's own seats and
  its grid (\<open>None\<close> is an empty cell).
\<close>

record TicTacToeGame =
  t_status :: GameStatus
  t_moves :: "TicTacToeMove list"
  t_winner :: "PlayerID option"
  t_x :: "PlayerID option"
  t_o :: "PlayerID option"
  t_board :: "int \<Rightarrow> int \<Rightarrow> GamePiece option"

text \<open>
  The orchestrator: the fields \<open>s_\<close> are those of \<^verbatim>\<open>this.state\<close>; \<open>games\<close>, \<open>p_xScore\<close>,
  \<open>p_oScore\<close> and \<open>moveCount\<close> are the private fields \<^verbatim>\<open>_games\<close>, \<^verbatim>\<open>_xScore\<close>,
  \<^verbatim>\<open>_oScore\<close> and \<^verbatim>\<open>_moveCount\<close>.
\<close>

record QuantumTicTacToeGame =
  s_moves :: "QuantumTicTacToeMove list"
  s_status :: GameStatus
  s_x :: "PlayerID option"
  s_o :: "PlayerID option"
  s_winner :: "PlayerID option"
  s_xScore :: nat
  s_oScore :: nat
  s_publiclyVisible :: "BoardId \<Rightarrow> int \<Rightarrow> int \<Rightarrow> bool"
  games :: "BoardId \<Rightarrow> TicTacToeGame"
  p_xScore :: nat
  p_oScore :: nat
  moveCount :: nat

text \<open>JavaScript's \<^verbatim>\<open>!v\<close> on a seat: \<^verbatim>\<open>undefined\<close> and the empty string are both falsy.\<close>

definition falsy :: "PlayerID option \<Rightarrow> bool" where
  "falsy v \<longleftrightarrow> v = None \<or> v = Some []"

section \<open>The single-board engine\<close>

text \<open>
  Modelled from the spec: \<^verbatim>\<open>TicTacToeGame\<close> (the single-board engine, section 4.1) is
  imported by \<^verbatim>\<open>QuantumTicTacToeGame.ts\<close> and is not among the sources. A board is a
  3 by 3 grid, an ordered move log and a terminal status; a new board is in progress,
  with an empty grid and an empty log.
\<close>

definition new_TicTacToeGame :: TicTacToeGame where
  "new_TicTacToeGame =
     \<lparr>t_status = IN_PROGRESS, t_moves = [], t_winner = None, t_x = None, t_o = None,
      t_board = (\<lambda>r c. None)\<rparr>"

text \<open>
  Modelled from the spec: the eight lines of a board (``three-in-a-row in any row,
  column, or diagonal'').
\<close>

definition board_lines :: "(int \<times> int) list list" where
  "board_lines =
     [[(0, 0), (0, 1), (0, 2)], [(1, 0), (1, 1), (1, 2)], [(2, 0), (2, 1), (2, 2)],
      [(0, 0), (1, 0), (2, 0)], [(0, 1), (1, 1), (2, 1)], [(0, 2), (1, 2), (2, 2)],
      [(0, 0), (1, 1), (2, 2)], [(0, 2), (1, 1), (2, 0)]]"

text \<open>Modelled from the spec: a mark holds all three cells of some line of the grid.\<close>

definition three_in_a_row :: "(int \<Rightarrow> int \<Rightarrow> GamePiece option) \<Rightarrow> GamePiece \<Rightarrow> bool" where
  "three_in_a_row g p \<longleftrightarrow>
     list_ex (\<lambda>l. list_all (\<lambda>rc. g (fst rc) (snd rc) = Some p) l) board_lines"

text \<open>Modelled from the spec: all nine cells of the grid are filled.\<close>

definition all_filled :: "(int \<Rightarrow> int \<Rightarrow> GamePiece option) \<Rightarrow> bool" where
  "all_filled g \<longleftrightarrow> list_all (\<lambda>r. list_all (\<lambda>c. g r c \<noteq> None) [0, 1, 2]) [0, 1, 2]"

text \<open>
  Modelled from the spec: the terminal status of a board is recomputed after a real
  move. A line of a mark makes the board won by that mark: the board is over and its
  winner is the player it has seated with that mark. Nine filled cells with no line make
  it drawn: over, with no winner.
\<close>

definition recompute_terminal :: "TicTacToeGame \<Rightarrow> TicTacToeGame" where
  "recompute_terminal g =
     (if three_in_a_row (t_board g) PieceX then g\<lparr>t_status := OVER, t_winner := t_x g\<rparr>
      else if three_in_a_row (t_board g) PieceO then g\<lparr>t_status := OVER, t_winner := t_o g\<rparr>
      else if all_filled (t_board g) then g\<lparr>t_status := OVER, t_winner := None\<rparr>
      else g)"

text \<open>
  Modelled from the spec: \<^verbatim>\<open>applyRealMove(row, col, mark)\<close> requires the board not to be
  terminal and the cell to be unoccupied, and signals an illegal move otherwise (leaving
  the board as it was); it places the mark, appends the move to the local log and
  recomputes the terminal status.
\<close>

definition applyRealMove :: "TicTacToeMove \<Rightarrow> TicTacToeGame \<Rightarrow> Error + TicTacToeGame" where
  "applyRealMove m g =
     (if t_status g = OVER \<or> t_board g (row m) (col m) \<noteq> None then Inl BOARD_ILLEGAL_MOVE
      else Inr (recompute_terminal
        (g\<lparr>t_board := (t_board g)(row m := (t_board g (row m))(col m := Some (gamePiece m))),
           t_moves := t_moves g @ [m]\<rparr>)))"

text \<open>
  Modelled from the spec: \<^verbatim>\<open>applyPassMove()\<close> appends a pass entry (row and column
  \<open>-1\<close>) to the local log without touching the grid, and never triggers a terminal check.
\<close>

definition applyPassMove :: "GamePiece \<Rightarrow> TicTacToeGame \<Rightarrow> TicTacToeGame" where
  "applyPassMove p g = g\<lparr>t_moves := t_moves g @ [\<lparr>row = - 1, col = - 1, gamePiece = p\<rparr>]\<rparr>"

text \<open>Modelled from the spec: a pass is a move whose row and column are both \<open>-1\<close>.\<close>

definition isPass :: "TicTacToeMove \<Rightarrow> bool" where
  "isPass m \<longleftrightarrow> row m = - 1 \<and> col m = - 1"

text \<open>
  Modelled from the spec: the entry point the orchestrator calls on a board
  (\<^verbatim>\<open>game._applyMove\<close> on the targeted board, \<^verbatim>\<open>game.applyMove\<close> on the others). A move
  with row and column \<open>-1\<close> is a pass, any other move is a real move.
\<close>

definition TicTacToeGame_applyMove :: "TicTacToeMove \<Rightarrow> TicTacToeGame \<Rightarrow> Error + TicTacToeGame" where
  "TicTacToeGame_applyMove m g =
     (if isPass m then Inr (applyPassMove (gamePiece m) g) else applyRealMove m g)"

text \<open>
  Modelled from the spec: \<^verbatim>\<open>join\<close> and \<^verbatim>\<open>leave\<close> of a board only keep its per-player
  bookkeeping consistent with the orchestrator's seats: a joining player is seated as X
  if that seat is empty, else as O; a leaving player's seat is vacated.
\<close>

definition TicTacToeGame_join :: "PlayerID \<Rightarrow> TicTacToeGame \<Rightarrow> TicTacToeGame" where
  "TicTacToeGame_join p g =
     (if falsy (t_x g) then g\<lparr>t_x := Some p\<rparr>
      else if falsy (t_o g) then g\<lparr>t_o := Some p\<rparr>
      else g)"

definition TicTacToeGame_leave :: "PlayerID \<Rightarrow> TicTacToeGame \<Rightarrow> TicTacToeGame" where
  "TicTacToeGame_leave p g =
     (if t_x g = Some p then g\<lparr>t_x := None\<rparr>
      else if t_o g = Some p then g\<lparr>t_o := None\<rparr>
      else g)"

section \<open>The orchestrator: QuantumTicTacToeGame.ts\<close>

text \<open>
  The file holds two revisions of the class; the model is that of the first, the one
  whose \<^verbatim>\<open>_validateMove\<close> refuses a move on a finished board and on the mover's own mark
  and whose \<^verbatim>\<open>_leave\<close> propagates to the boards. The methods \<^verbatim>\<open>_join\<close> and \<^verbatim>\<open>_leave\<close> are
  \<open>join\<close> and \<open>leave\<close> here; the base class \<^verbatim>\<open>Game\<close>, which calls them and keeps the list
  of players, is not modelled.
\<close>

text \<open>The constructor.\<close>

definition new_QuantumTicTacToeGame :: QuantumTicTacToeGame where
  "new_QuantumTicTacToeGame =
     \<lparr>s_moves = [], s_status = WAITING_TO_START, s_x = None, s_o = None, s_winner = None,
      s_xScore = 0, s_oScore = 0, s_publiclyVisible = (\<lambda>b r c. False),
      games = (\<lambda>b. new_TicTacToeGame), p_xScore = 0, p_oScore = 0, moveCount = 0\<rparr>"

text \<open>
  Every operation returns the error it throws (\<open>None\<close> when it returns normally) together
  with the state it leaves behind: an exception does not undo the assignments made
  before it.
\<close>

type_synonym outcome = "Error option \<times> QuantumTicTacToeGame"

text \<open>\<^verbatim>\<open>Object.values(this._games).forEach(game => game.join(player))\<close>, and the same for leave.\<close>

definition joinGames :: "PlayerID \<Rightarrow> QuantumTicTacToeGame \<Rightarrow> QuantumTicTacToeGame" where
  "joinGames p q = q\<lparr>games := (\<lambda>b. TicTacToeGame_join p (games q b))\<rparr>"

definition leaveGames :: "PlayerID \<Rightarrow> QuantumTicTacToeGame \<Rightarrow> QuantumTicTacToeGame" where
  "leaveGames p q = q\<lparr>games := (\<lambda>b. TicTacToeGame_leave p (games q b))\<rparr>"

text \<open>The last statement of \<^verbatim>\<open>_join\<close>: the match starts when both seats are truthy.\<close>

definition startIfSeated :: "QuantumTicTacToeGame \<Rightarrow> QuantumTicTacToeGame" where
  "startIfSeated q =
     (if \<not> falsy (s_x q) \<and> \<not> falsy (s_o q) then q\<lparr>s_status := IN_PROGRESS\<rparr> else q)"

text \<open>\<^verbatim>\<open>_join\<close>.\<close>

definition join :: "PlayerID \<Rightarrow> QuantumTicTacToeGame \<Rightarrow> outcome" where
  "join p q =
     (if s_x q = Some p \<or> s_o q = Some p then (Some PLAYER_ALREADY_IN_GAME_MESSAGE, q)
      else if falsy (s_x q) then (None, startIfSeated (joinGames p (q\<lparr>s_x := Some p\<rparr>)))
      else if falsy (s_o q) then (None, startIfSeated (joinGames p (q\<lparr>s_o := Some p\<rparr>)))
      else (Some GAME_FULL_MESSAGE, q))"

text \<open>\<^verbatim>\<open>_leave\<close>.\<close>

definition leave :: "PlayerID \<Rightarrow> QuantumTicTacToeGame \<Rightarrow> outcome" where
  "leave p q =
     (if s_x q \<noteq> Some p \<and> s_o q \<noteq> Some p then (Some PLAYER_NOT_IN_GAME_MESSAGE, q)
      else if s_status q = IN_PROGRESS then
        (if s_x q = Some p
         then (None, leaveGames p (q\<lparr>s_status := OVER, s_winner := s_o q, s_x := None\<rparr>))
         else (None, leaveGames p (q\<lparr>s_status := OVER, s_winner := s_x q, s_o := None\<rparr>)))
      else if s_status q = WAITING_TO_START then
        (if s_x q = Some p
         then (None, leaveGames p
                 (q\<lparr>s_moves := [], s_status := WAITING_TO_START, s_xScore := 0, s_oScore := 0,
                    s_publiclyVisible := (\<lambda>b r c. False), s_x := None, s_o := None\<rparr>))
         else (None, q))
      else (None, q))"

text \<open>
  The first loop of \<^verbatim>\<open>_validateMove\<close> over the targeted board's log: \<open>vis\<close> is
  \<^verbatim>\<open>publiclyVisible[board][row][col]\<close> of the incoming move.
\<close>

fun scanOccupied :: "TicTacToeMove list \<Rightarrow> QuantumTicTacToeMove \<Rightarrow> bool \<Rightarrow> Error option" where
  "scanOccupied [] mv vis = None"
| "scanOccupied (m # ms) mv vis =
     (if col m = col mv \<and> row m = row mv then
        (if vis then Some INVALID_MOVE_MESSAGE
         else if gamePiece m = gamePiece mv then Some INVALID_MOVE_MESSAGE
         else scanOccupied ms mv vis)
      else scanOccupied ms mv vis)"

text \<open>\<^verbatim>\<open>_validateMove\<close>: \<open>None\<close> when the move is valid, else the error thrown.\<close>

definition validateMove :: "GameMove \<Rightarrow> QuantumTicTacToeGame \<Rightarrow> Error option" where
  "validateMove mv q =
     (let targetGame = games q (board (move mv)) in
      if t_status targetGame = OVER \<and> length (t_moves targetGame) \<noteq> 0
      then Some INVALID_MOVE_MESSAGE
      else
        (case scanOccupied (t_moves targetGame) (move mv)
                (s_publiclyVisible q (board (move mv)) (row (move mv)) (col (move mv))) of
           Some e \<Rightarrow> Some e
         | None \<Rightarrow>
            (let expectedPiece = (if moveCount q mod 2 = 0 then PieceX else PieceO) in
             if gamePiece (move mv) \<noteq> expectedPiece then Some MOVE_NOT_YOUR_TURN_MESSAGE
             else if s_status q \<noteq> IN_PROGRESS then Some GAME_NOT_IN_PROGRESS_MESSAGE
             else None)))"

text \<open>
  The body of the \<^verbatim>\<open>forEach\<close> of \<^verbatim>\<open>_applyMoveWithBlanks\<close> for the board \<open>b\<close>: only a
  board in progress is touched; the targeted board gets the move, any other a blank.
\<close>

definition applyToGame :: "BoardId \<Rightarrow> GameMove \<Rightarrow> BoardId \<Rightarrow> QuantumTicTacToeGame \<Rightarrow> outcome" where
  "applyToGame target mv b q =
     (let game = games q b in
      if t_status game = IN_PROGRESS then
        (case TicTacToeGame_applyMove
                (if b = target
                 then \<lparr>row = row (move mv), col = col (move mv), gamePiece = gamePiece (move mv)\<rparr>
                 else \<lparr>row = - 1, col = - 1, gamePiece = gamePiece (move mv)\<rparr>) game of
           Inl e \<Rightarrow> (Some e, q)
         | Inr game' \<Rightarrow> (None, q\<lparr>games := (games q)(b := game')\<rparr>))
      else (None, q))"

text \<open>A \<^verbatim>\<open>forEach\<close> over the boards: an exception ends it, keeping what was done before.\<close>

fun forEachGame ::
  "(BoardId \<Rightarrow> QuantumTicTacToeGame \<Rightarrow> outcome) \<Rightarrow> BoardId list \<Rightarrow> QuantumTicTacToeGame \<Rightarrow> outcome" where
  "forEachGame f [] q = (None, q)"
| "forEachGame f (b # bs) q =
     (case f b q of
        (Some e, q') \<Rightarrow> (Some e, q')
      | (None, q') \<Rightarrow> forEachGame f bs q')"

text \<open>\<^verbatim>\<open>_applyMoveWithBlanks\<close>; \<^verbatim>\<open>Object.values\<close> lists the boards as A, B, C.\<close>

definition applyMoveWithBlanks :: "BoardId \<Rightarrow> GameMove \<Rightarrow> QuantumTicTacToeGame \<Rightarrow> outcome" where
  "applyMoveWithBlanks target mv q = forEachGame (applyToGame target mv) [BoardA, BoardB, BoardC] q"

text \<open>\<^verbatim>\<open>_checkForWins\<close>: the scores are counted afresh from the boards that are over.\<close>

definition scoreOf :: "QuantumTicTacToeGame \<Rightarrow> BoardId \<Rightarrow> nat \<times> nat" where
  "scoreOf q b =
     (let game = games q b in
      if t_status game = OVER then
        (if t_winner game = s_x q then (1, 0)
         else if t_winner game = s_o q then (0, 1)
         else (0, 0))
      else (0, 0))"

definition checkForWins :: "QuantumTicTacToeGame \<Rightarrow> QuantumTicTacToeGame" where
  "checkForWins q =
     (let localXScore = sum_list (map (\<lambda>b. fst (scoreOf q b)) [BoardA, BoardB, BoardC]);
          localOScore = sum_list (map (\<lambda>b. snd (scoreOf q b)) [BoardA, BoardB, BoardC])
      in q\<lparr>s_xScore := localXScore, s_oScore := localOScore,
           p_xScore := localXScore, p_oScore := localOScore\<rparr>)"

text \<open>\<^verbatim>\<open>_checkForGameEnding\<close>.\<close>

definition checkForGameEnding :: "QuantumTicTacToeGame \<Rightarrow> QuantumTicTacToeGame" where
  "checkForGameEnding q =
     (let isOver = list_all (\<lambda>b. t_status (games q b) = OVER) [BoardA, BoardB, BoardC];
          winner = (if p_xScore q > p_oScore q then s_x q
                    else if p_xScore q < p_oScore q then s_o q
                    else None)
      in if isOver then q\<lparr>s_status := OVER, s_winner := winner\<rparr> else q)"

text \<open>
  The collision loop of \<^verbatim>\<open>applyMove\<close>: the first entry of the targeted board's log at
  the move's cell, when that cell is not yet publicly visible.
\<close>

fun findCollision :: "TicTacToeMove list \<Rightarrow> QuantumTicTacToeMove \<Rightarrow> bool \<Rightarrow> TicTacToeMove option" where
  "findCollision [] mv vis = None"
| "findCollision (m # ms) mv vis =
     (if col m = col mv \<and> row m = row mv then
        (if \<not> vis then Some m else findCollision ms mv vis)
      else findCollision ms mv vis)"

text \<open>The first statement of \<^verbatim>\<open>applyMove\<close>: the mark is rewritten from the player's seat.\<close>

definition cleanMove :: "GameMove \<Rightarrow> QuantumTicTacToeGame \<Rightarrow> GameMove" where
  "cleanMove mv q =
     mv\<lparr>move := (move mv)\<lparr>gamePiece := (if Some (playerID mv) = s_x q then PieceX else PieceO)\<rparr>\<rparr>"

text \<open>
  \<^verbatim>\<open>applyMove\<close> after validation, up to the two final checks: the colliding branch and
  the plain one.
\<close>

definition placeMove :: "GameMove \<Rightarrow> QuantumTicTacToeGame \<Rightarrow> outcome" where
  "placeMove mv q =
     (let b = board (move mv); r = row (move mv); c = col (move mv) in
      case findCollision (t_moves (games q b)) (move mv) (s_publiclyVisible q b r c) of
        Some m \<Rightarrow>
          applyMoveWithBlanks b
            \<lparr>playerID = playerID mv,
             move = \<lparr>row = - 1, col = - 1, gamePiece = gamePiece m, board = b\<rparr>\<rparr>
            (q\<lparr>s_publiclyVisible :=
                  (s_publiclyVisible q)(b := (s_publiclyVisible q b)(r := (s_publiclyVisible q b r)(c := True))),
               moveCount := moveCount q + 1,
               s_moves := s_moves q @ [move mv]\<rparr>)
      | None \<Rightarrow>
          applyMoveWithBlanks b mv
            (q\<lparr>s_moves := s_moves q @ [move mv], moveCount := moveCount q + 1\<rparr>))"

text \<open>\<^verbatim>\<open>applyMove\<close>.\<close>

definition applyMove :: "GameMove \<Rightarrow> QuantumTicTacToeGame \<Rightarrow> outcome" where
  "applyMove mv0 q =
     (let mv = cleanMove mv0 q in
      case validateMove mv q of
        Some e \<Rightarrow> (Some e, q)
      | None \<Rightarrow>
         (case placeMove mv q of
            (Some e, q') \<Rightarrow> (Some e, q')
          | (None, q') \<Rightarrow> (None, checkForGameEnding (checkForWins q'))))"

section \<open>Calls and reachable states\<close>

datatype Call = Join PlayerID | Leave PlayerID | ApplyMove GameMove

fun exec :: "Call \<Rightarrow> QuantumTicTacToeGame \<Rightarrow> outcome" where
  "exec (Join p) q = join p q"
| "exec (Leave p) q = leave p q"
| "exec (ApplyMove mv) q = applyMove mv q"

text \<open>The state after a sequence of calls, whether each was accepted or rejected.\<close>

fun run :: "Call list \<Rightarrow> QuantumTicTacToeGame \<Rightarrow> QuantumTicTacToeGame" where
  "run [] q = q"
| "run (c # cs) q = run cs (snd (exec c q))"

text \<open>The states a match can be in: those that calls lead to from a new match.\<close>

inductive reachable :: "QuantumTicTacToeGame \<Rightarrow> bool" where
  reachable_new: "reachable new_QuantumTicTacToeGame"
| reachable_step: "reachable q \<Longrightarrow> reachable (snd (exec c q))"

section \<open>Notions used in the statements\<close>

text \<open>
  What \<^verbatim>\<open>_applyMoveWithBlanks\<close> hands to the board \<open>b\<close>, the board it leaves behind, and
  whether the board rejects the move.
\<close>

definition moveFor :: "BoardId \<Rightarrow> GameMove \<Rightarrow> BoardId \<Rightarrow> TicTacToeMove" where
  "moveFor target mv b =
     (if b = target
      then \<lparr>row = row (move mv), col = col (move mv), gamePiece = gamePiece (move mv)\<rparr>
      else \<lparr>row = - 1, col = - 1, gamePiece = gamePiece (move mv)\<rparr>)"

definition boardAfter :: "BoardId \<Rightarrow> GameMove \<Rightarrow> BoardId \<Rightarrow> TicTacToeGame \<Rightarrow> TicTacToeGame" where
  "boardAfter target mv b g =
     (if t_status g = IN_PROGRESS then
        (case TicTacToeGame_applyMove (moveFor target mv b) g of Inl e \<Rightarrow> g | Inr g' \<Rightarrow> g')
      else g)"

definition boardFails :: "BoardId \<Rightarrow> GameMove \<Rightarrow> BoardId \<Rightarrow> TicTacToeGame \<Rightarrow> bool" where
  "boardFails target mv b g \<longleftrightarrow>
     t_status g = IN_PROGRESS \<and> isl (TicTacToeGame_applyMove (moveFor target mv b) g)"

text \<open>
  The defects of a move, in the words of the specification: (b) the targeted board is
  terminal with a non-empty log; (c) the target cell is occupied and is publicly visible
  or bears the mover's own mark; (d) the mark does not match the parity of the turn
  index; (a) the match is not in progress.
\<close>

definition boardClosed :: "GameMove \<Rightarrow> QuantumTicTacToeGame \<Rightarrow> bool" where
  "boardClosed mv q \<longleftrightarrow>
     t_status (games q (board (move mv))) = OVER \<and> t_moves (games q (board (move mv))) \<noteq> []"

definition cellClosed :: "GameMove \<Rightarrow> QuantumTicTacToeGame \<Rightarrow> bool" where
  "cellClosed mv q \<longleftrightarrow>
     list_ex (\<lambda>m. row m = row (move mv) \<and> col m = col (move mv) \<and>
                  (s_publiclyVisible q (board (move mv)) (row (move mv)) (col (move mv)) \<or>
                   gamePiece m = gamePiece (move mv)))
       (t_moves (games q (board (move mv))))"

definition outOfTurn :: "GameMove \<Rightarrow> QuantumTicTacToeGame \<Rightarrow> bool" where
  "outOfTurn mv q \<longleftrightarrow> gamePiece (move mv) \<noteq> (if even (moveCount q) then PieceX else PieceO)"

definition notInProgress :: "QuantumTicTacToeGame \<Rightarrow> bool" where
  "notInProgress q \<longleftrightarrow> s_status q \<noteq> IN_PROGRESS"

text \<open>The error of the first defect that applies, in the order listed.\<close>

fun firstApplicable :: "(bool \<times> Error) list \<Rightarrow> Error option" where
  "firstApplicable [] = None"
| "firstApplicable (ce # ces) = (if fst ce then Some (snd ce) else firstApplicable ces)"

text \<open>The order in which \<^verbatim>\<open>_validateMove\<close> checks the defects: (b), (c), (d), (a).\<close>

definition codeOrder :: "GameMove \<Rightarrow> QuantumTicTacToeGame \<Rightarrow> Error option" where
  "codeOrder mv q =
     firstApplicable
       [(boardClosed mv q, INVALID_MOVE_MESSAGE),
        (cellClosed mv q, INVALID_MOVE_MESSAGE),
        (outOfTurn mv q, MOVE_NOT_YOUR_TURN_MESSAGE),
        (notInProgress q, GAME_NOT_IN_PROGRESS_MESSAGE)]"

section \<open>Invariants of the reachable states\<close>

text \<open>
  A match in progress has two distinct players seated; the move log is as long as the
  turn counter, and a match waiting to start has played nothing and revealed nothing; on
  every board the occupied cells are those of the real moves of its log; and a cell is
  publicly visible only if the board's log has a move at it.
\<close>

definition seatsOK :: "QuantumTicTacToeGame \<Rightarrow> bool" where
  "seatsOK q \<longleftrightarrow>
     (s_status q = IN_PROGRESS \<longrightarrow> \<not> falsy (s_x q) \<and> \<not> falsy (s_o q) \<and> s_x q \<noteq> s_o q)"

definition logOK :: "QuantumTicTacToeGame \<Rightarrow> bool" where
  "logOK q \<longleftrightarrow>
     length (s_moves q) = moveCount q \<and>
     (s_status q = WAITING_TO_START \<longrightarrow>
        moveCount q = 0 \<and> (\<forall>b r c. \<not> s_publiclyVisible q b r c))"

definition gridOK :: "TicTacToeGame \<Rightarrow> bool" where
  "gridOK g \<longleftrightarrow>
     t_status g \<noteq> WAITING_TO_START \<and>
     t_board g (- 1) (- 1) = None \<and>
     (\<forall>r c. t_board g r c \<noteq> None \<longrightarrow> (\<exists>m \<in> set (t_moves g). row m = r \<and> col m = c)) \<and>
     (\<forall>m \<in> set (t_moves g). \<not> isPass m \<longrightarrow> t_board g (row m) (col m) = Some (gamePiece m))"

definition visibleOK :: "QuantumTicTacToeGame \<Rightarrow> bool" where
  "visibleOK q \<longleftrightarrow>
     (\<forall>b r c. s_publiclyVisible q b r c \<longrightarrow>
        (\<exists>m \<in> set (t_moves (games q b)). row m = r \<and> col m = c))"

definition invariant :: "QuantumTicTacToeGame \<Rightarrow> bool" where
  "invariant q \<longleftrightarrow> seatsOK q \<and> logOK q \<and> (\<forall>b. gridOK (games q b)) \<and> visibleOK q"

section \<open>The outcome of a board\<close>

definition allBoards :: "BoardId list" where
  "allBoards = [BoardA, BoardB, BoardC]"









text \<open>The mark carried by the blanks of a move: that of the mark it collides with, if any.\<close>

definition blankPiece :: "GameMove \<Rightarrow> QuantumTicTacToeGame \<Rightarrow> GamePiece" where
  "blankPiece mv q =
     (case findCollision (t_moves (games q (board (move mv)))) (move mv)
             (s_publiclyVisible q (board (move mv)) (row (move mv)) (col (move mv))) of
        Some m \<Rightarrow> gamePiece m
      | None \<Rightarrow> gamePiece (move mv))"

text \<open>A board has received a pass: it is the board before, with one pass appended to its log.\<close>

definition receivedPass :: "TicTacToeGame \<Rightarrow> TicTacToeGame \<Rightarrow> bool" where
  "receivedPass g g' \<longleftrightarrow>
     g' = applyPassMove PieceX g \<or> g' = applyPassMove PieceO g"

section \<open>Example matches\<close>

text \<open>
  The \<^verbatim>\<open>makeMove\<close> helper of \<^verbatim>\<open>QuantumTicTacToeGame.test.ts\<close>: the mark a caller supplies
  is X for the first player and O for anyone else.
\<close>

definition makeMove :: "PlayerID \<Rightarrow> BoardId \<Rightarrow> int \<Rightarrow> int \<Rightarrow> GameMove" where
  "makeMove p b r c =
     \<lparr>playerID = p,
      move = \<lparr>row = r, col = c, gamePiece = (if p = ''p1'' then PieceX else PieceO), board = b\<rparr>\<rparr>"

text \<open>Two players seated: the \<^verbatim>\<open>beforeEach\<close> of the tests of \<^verbatim>\<open>applyMove\<close>.\<close>

definition seated :: QuantumTicTacToeGame where
  "seated = run [Join ''p1'', Join ''p2''] new_QuantumTicTacToeGame"

text \<open>The player seated as X has left before any move.\<close>

definition abandoned :: QuantumTicTacToeGame where
  "abandoned = run [Leave ''p1''] seated"

text \<open>X has won board A in five moves (O played on board B); then O leaves.\<close>

definition wonA :: QuantumTicTacToeGame where
  "wonA =
     run [ApplyMove (makeMove ''p1'' BoardA 0 0), ApplyMove (makeMove ''p2'' BoardB 0 0),
          ApplyMove (makeMove ''p1'' BoardA 0 1), ApplyMove (makeMove ''p2'' BoardB 0 1),
          ApplyMove (makeMove ''p1'' BoardA 0 2)] seated"

definition wonA_left :: QuantumTicTacToeGame where
  "wonA_left = run [Leave ''p2''] wonA"


text \<open>X has played A(0,0).\<close>

definition opened :: QuantumTicTacToeGame where
  "opened = run [ApplyMove (makeMove ''p1'' BoardA 0 0)] seated"

text \<open>X has played A(0,0) and O has collided there.\<close>

definition collided :: QuantumTicTacToeGame where
  "collided =
     run [ApplyMove (makeMove ''p1'' BoardA 0 0), ApplyMove (makeMove ''p2'' BoardA 0 0)] seated"


text \<open>
  The full game of the tests, one move before its end: X has won board A, O has won
  board B, and X is one move from the diagonal of board C.
\<close>

definition lastMoveOpen :: QuantumTicTacToeGame where
  "lastMoveOpen =
     run [ApplyMove (makeMove ''p1'' BoardA 0 0), ApplyMove (makeMove ''p2'' BoardA 0 0),
          ApplyMove (makeMove ''p1'' BoardA 1 1), ApplyMove (makeMove ''p2'' BoardB 0 0),
          ApplyMove (makeMove ''p1'' BoardA 2 2), ApplyMove (makeMove ''p2'' BoardB 1 1),
          ApplyMove (makeMove ''p1'' BoardC 0 0), ApplyMove (makeMove ''p2'' BoardB 2 2),
          ApplyMove (makeMove ''p1'' BoardC 1 1), ApplyMove (makeMove ''p2'' BoardC 0 1)] seated"

text \<open>The two other full games of the tests: O wins two boards to one; one board each and a draw.\<close>

definition oWins :: QuantumTicTacToeGame where
  "oWins =
     run [ApplyMove (makeMove ''p1'' BoardA 0 0), ApplyMove (makeMove ''p2'' BoardA 0 0),
          ApplyMove (makeMove ''p1'' BoardA 1 1), ApplyMove (makeMove ''p2'' BoardB 0 0),
          ApplyMove (makeMove ''p1'' BoardA 2 2), ApplyMove (makeMove ''p2'' BoardB 1 1),
          ApplyMove (makeMove ''p1'' BoardC 0 0), ApplyMove (makeMove ''p2'' BoardB 2 2),
          ApplyMove (makeMove ''p1'' BoardC 1 0), ApplyMove (makeMove ''p2'' BoardC 0 1),
          ApplyMove (makeMove ''p1'' BoardC 0 1), ApplyMove (makeMove ''p2'' BoardC 1 1),
          ApplyMove (makeMove ''p1'' BoardC 1 1), ApplyMove (makeMove ''p2'' BoardC 2 1)] seated"

definition tied :: QuantumTicTacToeGame where
  "tied =
     run [ApplyMove (makeMove ''p1'' BoardA 0 0), ApplyMove (makeMove ''p2'' BoardA 0 0),
          ApplyMove (makeMove ''p1'' BoardA 1 1), ApplyMove (makeMove ''p2'' BoardB 0 0),
          ApplyMove (makeMove ''p1'' BoardA 2 2), ApplyMove (makeMove ''p2'' BoardB 1 1),
          ApplyMove (makeMove ''p1'' BoardC 0 0), ApplyMove (makeMove ''p2'' BoardB 2 2),
          ApplyMove (makeMove ''p1'' BoardC 1 1), ApplyMove (makeMove ''p2'' BoardC 0 1),
          ApplyMove (makeMove ''p1'' BoardC 2 1), ApplyMove (makeMove ''p2'' BoardC 2 0),
          ApplyMove (makeMove ''p1'' BoardC 0 2), ApplyMove (makeMove ''p2'' BoardC 2 2),
          ApplyMove (makeMove ''p1'' BoardC 1 2), ApplyMove (makeMove ''p2'' BoardC 1 0)] seated"

section \<open>Evaluating the model on concrete matches\<close>

lemmas eval_defs =
  join_def leave_def applyMove_def placeMove_def cleanMove_def validateMove_def
  applyMoveWithBlanks_def applyToGame_def checkForWins_def checkForGameEnding_def scoreOf_def
  joinGames_def leaveGames_def startIfSeated_def falsy_def new_QuantumTicTacToeGame_def
  new_TicTacToeGame_def TicTacToeGame_join_def TicTacToeGame_leave_def TicTacToeGame_applyMove_def
  applyRealMove_def applyPassMove_def isPass_def recompute_terminal_def three_in_a_row_def
  all_filled_def board_lines_def makeMove_def Let_def

lemma seated_eq:
  "seated =
     \<lparr>s_moves = [], s_status = IN_PROGRESS, s_x = Some ''p1'', s_o = Some ''p2'', s_winner = None,
      s_xScore = 0, s_oScore = 0, s_publiclyVisible = (\<lambda>b r c. False),
      games = (\<lambda>b. \<lparr>t_status = IN_PROGRESS, t_moves = [], t_winner = None, t_x = Some ''p1'',
                      t_o = Some ''p2'', t_board = (\<lambda>r c. None)\<rparr>),
      p_xScore = 0, p_oScore = 0, moveCount = 0\<rparr>"
  by (simp add: seated_def eval_defs)

section \<open>The scenarios of the test file\<close>

text \<open>
  The model, with its single-board engine, gives what \<^verbatim>\<open>QuantumTicTacToeGame.test.ts\<close>
  expects of the class: the placing of a mark, leaving, the errors of validation, and
  the outcomes of the full games.
\<close>

lemma test_place_piece:
  "t_board (games opened BoardA) 0 0 = Some PieceX \<and> length (s_moves opened) = 1 \<and>
   \<not> s_publiclyVisible opened BoardA 0 0"
  by (simp add: opened_def seated_eq eval_defs)

lemma test_leave_in_progress:
  "s_status (run [Leave ''p1''] seated) = OVER \<and> s_winner (run [Leave ''p1''] seated) = Some ''p2'' \<and>
   s_status (run [Leave ''p2''] seated) = OVER \<and> s_winner (run [Leave ''p2''] seated) = Some ''p1''"
  by (simp add: seated_eq eval_defs)

lemma test_leave_waiting:
  "s_x (run [Join ''p1'', Leave ''p1''] new_QuantumTicTacToeGame) = None \<and>
   s_o (run [Join ''p1'', Leave ''p1''] new_QuantumTicTacToeGame) = None \<and>
   s_status (run [Join ''p1'', Leave ''p1''] new_QuantumTicTacToeGame) = WAITING_TO_START \<and>
   s_winner (run [Join ''p1'', Leave ''p1''] new_QuantumTicTacToeGame) = None"
  by (simp add: eval_defs)

lemma test_errors:
  "fst (exec (ApplyMove (makeMove ''p1'' BoardA 0 2)) (run [Leave ''p2''] seated)) =
     Some GAME_NOT_IN_PROGRESS_MESSAGE \<and>
   fst (exec (ApplyMove (makeMove ''p2'' BoardA 0 2)) wonA) = Some INVALID_MOVE_MESSAGE \<and>
   fst (exec (ApplyMove (makeMove ''p1'' BoardA 0 2)) opened) = Some MOVE_NOT_YOUR_TURN_MESSAGE \<and>
   fst (exec (ApplyMove (makeMove ''p2'' BoardA 0 0)) seated) = Some MOVE_NOT_YOUR_TURN_MESSAGE \<and>
   fst (exec (ApplyMove (makeMove ''p1'' BoardA 0 0)) collided) = Some INVALID_MOVE_MESSAGE"
  by (simp add: wonA_def opened_def collided_def seated_eq eval_defs)

lemma test_O_wins:
  "s_status oWins = OVER \<and> s_winner oWins = Some ''p2'' \<and> s_xScore oWins = 1 \<and> s_oScore oWins = 2"
  by (simp add: oWins_def seated_eq eval_defs)

lemma test_tie:
  "s_status tied = OVER \<and> s_winner tied = None \<and> s_xScore tied = 1 \<and> s_oScore tied = 1"
  by (simp add: tied_def seated_eq eval_defs)

section \<open>The fan-out of a move to the three boards\<close>

lemma applyToGame_games:
  "games (snd (applyToGame target mv b q)) = (games q)(b := boardAfter target mv b (games q b))"
  by (auto simp add: applyToGame_def boardAfter_def moveFor_def Let_def split: sum.split)

lemma applyToGame_frame:
  "snd (applyToGame target mv b q) = q\<lparr>games := (games q)(b := boardAfter target mv b (games q b))\<rparr>"
  by (auto simp add: applyToGame_def boardAfter_def moveFor_def Let_def split: sum.split)

lemma applyToGame_fst:
  "fst (applyToGame target mv b q) = None \<longleftrightarrow> \<not> boardFails target mv b (games q b)"
  by (auto simp add: applyToGame_def boardFails_def moveFor_def Let_def split: sum.split)

lemma forEachGame_frame:
  "\<exists>G. snd (forEachGame (applyToGame target mv) bs q) = q\<lparr>games := G\<rparr>"
proof (induction bs arbitrary: q)
  case Nil
  have "snd (forEachGame (applyToGame target mv) [] q) = q\<lparr>games := games q\<rparr>" by simp
  then show ?case by blast
next
  case (Cons b bs)
  obtain e q1 where f: "applyToGame target mv b q = (e, q1)"
    by (cases "applyToGame target mv b q")
  define G1 where "G1 = (games q)(b := boardAfter target mv b (games q b))"
  have q1: "q1 = q\<lparr>games := G1\<rparr>"
    using applyToGame_frame[of target mv b q] f by (simp add: G1_def)
  show ?case
  proof (cases e)
    case (Some a)
    then show ?thesis using f q1 by auto
  next
    case None
    obtain G where "snd (forEachGame (applyToGame target mv) bs q1) = q1\<lparr>games := G\<rparr>"
      using Cons.IH by blast
    then have "snd (forEachGame (applyToGame target mv) (b # bs) q) = q\<lparr>games := G\<rparr>"
      using f None q1 by simp
    then show ?thesis by blast
  qed
qed

lemma forEachGame_untouched:
  "b \<notin> set bs \<Longrightarrow> games (snd (forEachGame (applyToGame target mv) bs q)) b = games q b"
proof (induction bs arbitrary: q)
  case Nil
  show ?case by simp
next
  case (Cons a bs)
  obtain e q1 where f: "applyToGame target mv a q = (e, q1)"
    by (cases "applyToGame target mv a q")
  have q1: "games q1 b = games q b"
    using applyToGame_games[of target mv a q] f Cons.prems by simp
  show ?case
  proof (cases e)
    case (Some err)
    then show ?thesis using f q1 by simp
  next
    case None
    have "games (snd (forEachGame (applyToGame target mv) bs q1)) b = games q1 b"
      using Cons.IH Cons.prems by simp
    then show ?thesis using f None q1 by simp
  qed
qed

lemma forEachGame_games_cases:
  "distinct bs \<Longrightarrow>
   games (snd (forEachGame (applyToGame target mv) bs q)) b = games q b \<or>
   games (snd (forEachGame (applyToGame target mv) bs q)) b = boardAfter target mv b (games q b)"
proof (induction bs arbitrary: q)
  case Nil
  show ?case by simp
next
  case (Cons a bs)
  obtain e q1 where f: "applyToGame target mv a q = (e, q1)"
    by (cases "applyToGame target mv a q")
  have g1: "games q1 = (games q)(a := boardAfter target mv a (games q a))"
    using applyToGame_games[of target mv a q] f by simp
  show ?case
  proof (cases e)
    case (Some err)
    then show ?thesis using f g1 by simp
  next
    case None
    show ?thesis
    proof (cases "b = a")
      case True
      then have "b \<notin> set bs" using Cons.prems by simp
      then have "games (snd (forEachGame (applyToGame target mv) bs q1)) b = games q1 b"
        by (rule forEachGame_untouched)
      then show ?thesis using f None g1 True by simp
    next
      case False
      have "games (snd (forEachGame (applyToGame target mv) bs q1)) b = games q1 b \<or>
            games (snd (forEachGame (applyToGame target mv) bs q1)) b = boardAfter target mv b (games q1 b)"
        using Cons.IH Cons.prems by simp
      then show ?thesis using f None g1 False by simp
    qed
  qed
qed

lemma forEachGame_ok:
  "distinct bs \<Longrightarrow> \<forall>b \<in> set bs. \<not> boardFails target mv b (games q b) \<Longrightarrow>
   fst (forEachGame (applyToGame target mv) bs q) = None \<and>
   (\<forall>b. games (snd (forEachGame (applyToGame target mv) bs q)) b =
        (if b \<in> set bs then boardAfter target mv b (games q b) else games q b))"
proof (induction bs arbitrary: q)
  case Nil
  show ?case by simp
next
  case (Cons a bs)
  obtain e q1 where f: "applyToGame target mv a q = (e, q1)"
    by (cases "applyToGame target mv a q")
  have e: "e = None"
    using applyToGame_fst[of target mv a q] f Cons.prems by simp
  have g1: "games q1 = (games q)(a := boardAfter target mv a (games q a))"
    using applyToGame_games[of target mv a q] f by simp
  have "\<forall>b \<in> set bs. \<not> boardFails target mv b (games q1 b)"
    using Cons.prems g1 by auto
  then have ih: "fst (forEachGame (applyToGame target mv) bs q1) = None \<and>
   (\<forall>b. games (snd (forEachGame (applyToGame target mv) bs q1)) b =
        (if b \<in> set bs then boardAfter target mv b (games q1 b) else games q1 b))"
    using Cons.IH Cons.prems by simp
  show ?case using ih f e g1 Cons.prems by auto
qed

lemma forEachGame_fst_None:
  "distinct bs \<Longrightarrow> fst (forEachGame (applyToGame target mv) bs q) = None \<Longrightarrow>
   \<forall>b \<in> set bs. \<not> boardFails target mv b (games q b)"
proof (induction bs arbitrary: q)
  case Nil
  show ?case by simp
next
  case (Cons a bs)
  obtain e q1 where f: "applyToGame target mv a q = (e, q1)"
    by (cases "applyToGame target mv a q")
  have e: "e = None" using Cons.prems f by (cases e) auto
  have a: "\<not> boardFails target mv a (games q a)"
    using applyToGame_fst[of target mv a q] f e by simp
  have g1: "games q1 = (games q)(a := boardAfter target mv a (games q a))"
    using applyToGame_games[of target mv a q] f by simp
  have "fst (forEachGame (applyToGame target mv) bs q1) = None"
    using Cons.prems f e by simp
  then have ih: "\<forall>b \<in> set bs. \<not> boardFails target mv b (games q1 b)"
    using Cons.IH Cons.prems by simp
  have "\<forall>b \<in> set bs. games q1 b = games q b"
    using g1 Cons.prems by auto
  then show ?case using a ih by simp
qed

section \<open>Validation\<close>

lemma scanOccupied_None:
  "scanOccupied ms mv vis = None \<longleftrightarrow>
     \<not> list_ex (\<lambda>m. row m = row mv \<and> col m = col mv \<and> (vis \<or> gamePiece m = gamePiece mv)) ms"
  by (induction ms) auto

lemma scanOccupied_Some:
  "scanOccupied ms mv vis = Some e \<Longrightarrow> e = INVALID_MOVE_MESSAGE"
  by (induction ms) (auto split: if_splits)

lemma validateMove_codeOrder: "validateMove mv q = codeOrder mv q"
proof (cases "scanOccupied (t_moves (games q (board (move mv)))) (move mv)
                (s_publiclyVisible q (board (move mv)) (row (move mv)) (col (move mv)))")
  case None
  then have "\<not> cellClosed mv q"
    using scanOccupied_None[of "t_moves (games q (board (move mv)))" "move mv"]
    by (simp add: cellClosed_def)
  then show ?thesis using None
    by (simp add: validateMove_def codeOrder_def boardClosed_def outOfTurn_def notInProgress_def
        Let_def even_iff_mod_2_eq_zero)
next
  case (Some e)
  then have e: "e = INVALID_MOVE_MESSAGE" by (rule scanOccupied_Some)
  have "cellClosed mv q"
    using Some scanOccupied_None[of "t_moves (games q (board (move mv)))" "move mv"
        "s_publiclyVisible q (board (move mv)) (row (move mv)) (col (move mv))"]
    by (simp add: cellClosed_def)
  then show ?thesis using Some e
    by (simp add: validateMove_def codeOrder_def boardClosed_def Let_def)
qed

lemma applyMove_rejected_by_validation:
  "validateMove (cleanMove mv0 q) q = Some e \<Longrightarrow> applyMove mv0 q = (Some e, q)"
  by (simp add: applyMove_def Let_def)

section \<open>The boards keep their invariant\<close>

lemma recompute_terminal_simps [simp]:
  "t_board (recompute_terminal g) = t_board g"
  "t_moves (recompute_terminal g) = t_moves g"
  "t_x (recompute_terminal g) = t_x g"
  "t_o (recompute_terminal g) = t_o g"
  by (simp_all add: recompute_terminal_def)

lemma recompute_terminal_status:
  "t_status (recompute_terminal g) = t_status g \<or> t_status (recompute_terminal g) = OVER"
  by (simp add: recompute_terminal_def)

lemma gridOK_recompute: "gridOK g \<Longrightarrow> gridOK (recompute_terminal g)"
  using recompute_terminal_status[of g] by (auto simp add: gridOK_def)

lemma gridOK_pass: "gridOK g \<Longrightarrow> gridOK (applyPassMove p g)"
  by (auto simp add: gridOK_def applyPassMove_def isPass_def)

lemma gridOK_real:
  assumes "gridOK g" and "applyRealMove m g = Inr g'" and "\<not> isPass m"
  shows "gridOK g'"
proof -
  have free: "t_board g (row m) (col m) = None" and st: "t_status g \<noteq> OVER"
    using assms(2) by (auto simp add: applyRealMove_def split: if_splits)
  define g1 where
    "g1 = g\<lparr>t_board := (t_board g)(row m := (t_board g (row m))(col m := Some (gamePiece m))),
            t_moves := t_moves g @ [m]\<rparr>"
  have g': "g' = recompute_terminal g1"
    using assms(2) free st by (simp add: applyRealMove_def g1_def)
  have 1: "t_status g1 \<noteq> WAITING_TO_START" using assms(1) by (simp add: g1_def gridOK_def)
  have 2: "t_board g1 (- 1) (- 1) = None"
    using assms(1,3) by (auto simp add: g1_def gridOK_def isPass_def)
  have 3: "\<exists>m' \<in> set (t_moves g1). row m' = r \<and> col m' = c" if "t_board g1 r c \<noteq> None" for r c
  proof (cases "r = row m \<and> c = col m")
    case True
    then show ?thesis by (simp add: g1_def)
  next
    case False
    then have "t_board g r c \<noteq> None" using that by (auto simp add: g1_def split: if_splits)
    then show ?thesis using assms(1) by (auto simp add: g1_def gridOK_def)
  qed
  have 4: "t_board g1 (row m') (col m') = Some (gamePiece m')"
    if "m' \<in> set (t_moves g1)" "\<not> isPass m'" for m'
  proof (cases "m' = m")
    case True
    then show ?thesis by (simp add: g1_def)
  next
    case False
    then have old: "m' \<in> set (t_moves g)" using that(1) by (simp add: g1_def)
    then have h: "t_board g (row m') (col m') = Some (gamePiece m')"
      using assms(1) that(2) by (simp add: gridOK_def)
    then have "\<not> (row m' = row m \<and> col m' = col m)" using free by auto
    then show ?thesis using h by (auto simp add: g1_def)
  qed
  have "gridOK g1" using 1 2 3 4 by (simp add: gridOK_def)
  then show ?thesis using g' gridOK_recompute by simp
qed

lemma gridOK_applyMove:
  "gridOK g \<Longrightarrow> TicTacToeGame_applyMove m g = Inr g' \<Longrightarrow> gridOK g'"
  using gridOK_pass gridOK_real by (auto simp add: TicTacToeGame_applyMove_def split: if_splits)

lemma applyMove_log:
  "TicTacToeGame_applyMove m g = Inr g' \<Longrightarrow> t_moves g' = t_moves g @ [m]"
  by (auto simp add: TicTacToeGame_applyMove_def applyPassMove_def applyRealMove_def isPass_def
      split: if_splits)

lemma gridOK_join: "gridOK g \<Longrightarrow> gridOK (TicTacToeGame_join p g)"
  by (simp add: gridOK_def TicTacToeGame_join_def)

lemma gridOK_leave: "gridOK g \<Longrightarrow> gridOK (TicTacToeGame_leave p g)"
  by (simp add: gridOK_def TicTacToeGame_leave_def)

lemma join_log [simp]: "t_moves (TicTacToeGame_join p g) = t_moves g"
  by (simp add: TicTacToeGame_join_def)

lemma leave_log [simp]: "t_moves (TicTacToeGame_leave p g) = t_moves g"
  by (simp add: TicTacToeGame_leave_def)

lemma gridOK_boardAfter: "gridOK g \<Longrightarrow> gridOK (boardAfter target mv b g)"
  using gridOK_applyMove by (auto simp add: boardAfter_def split: sum.splits)

lemma boardAfter_log:
  "t_moves (boardAfter target mv b g) = t_moves g \<or>
   t_moves (boardAfter target mv b g) = t_moves g @ [moveFor target mv b]"
  using applyMove_log by (auto simp add: boardAfter_def split: sum.splits)

lemma boardAfter_log_mono: "set (t_moves g) \<subseteq> set (t_moves (boardAfter target mv b g))"
  using boardAfter_log[of target mv b g] by auto

section \<open>The shape of the state after a move\<close>

lemma applyMoveWithBlanks_shape:
  "\<exists>G. snd (applyMoveWithBlanks target mv q) = q\<lparr>games := G\<rparr> \<and>
       (\<forall>b. G b = games q b \<or> G b = boardAfter target mv b (games q b))"
proof -
  obtain G where G: "snd (applyMoveWithBlanks target mv q) = q\<lparr>games := G\<rparr>"
    unfolding applyMoveWithBlanks_def using forEachGame_frame by blast
  have "distinct [BoardA, BoardB, BoardC]" by simp
  then have "G b = games q b \<or> G b = boardAfter target mv b (games q b)" for b
    using forEachGame_games_cases[of "[BoardA, BoardB, BoardC]" target mv q b] G
    by (simp add: applyMoveWithBlanks_def)
  then show ?thesis using G by blast
qed

lemma findCollision_Some:
  "findCollision ms mv vis = Some m \<Longrightarrow>
     m \<in> set ms \<and> row m = row mv \<and> col m = col mv \<and> \<not> vis"
  by (induction ms) (auto split: if_splits)

lemma findCollision_None:
  "findCollision ms mv vis = None \<longleftrightarrow>
     vis \<or> \<not> (\<exists>m \<in> set ms. row m = row mv \<and> col m = col mv)"
  by (induction ms) auto

lemma placeMove_shape:
  "\<exists>V G. snd (placeMove mv q) =
            q\<lparr>s_publiclyVisible := V, moveCount := moveCount q + 1,
              s_moves := s_moves q @ [move mv], games := G\<rparr> \<and>
         (\<forall>b. (gridOK (games q b) \<longrightarrow> gridOK (G b)) \<and>
              set (t_moves (games q b)) \<subseteq> set (t_moves (G b))) \<and>
         (\<forall>b r c. V b r c \<longrightarrow>
              s_publiclyVisible q b r c \<or> (\<exists>m \<in> set (t_moves (games q b)). row m = r \<and> col m = c)) \<and>
         (\<forall>b r c. s_publiclyVisible q b r c \<longrightarrow> V b r c)"
proof -
  let ?b = "board (move mv)" and ?r = "row (move mv)" and ?c = "col (move mv)"
  show ?thesis
  proof (cases "findCollision (t_moves (games q ?b)) (move mv) (s_publiclyVisible q ?b ?r ?c)")
    case None
    let ?q1 = "q\<lparr>s_moves := s_moves q @ [move mv], moveCount := moveCount q + 1\<rparr>"
    obtain G where G: "snd (applyMoveWithBlanks ?b mv ?q1) = ?q1\<lparr>games := G\<rparr>"
      and Gb: "\<forall>b. G b = games ?q1 b \<or> G b = boardAfter ?b mv b (games ?q1 b)"
      using applyMoveWithBlanks_shape[of ?b mv ?q1] by blast
    have s: "snd (placeMove mv q) =
            q\<lparr>s_publiclyVisible := s_publiclyVisible q, moveCount := moveCount q + 1,
              s_moves := s_moves q @ [move mv], games := G\<rparr>"
      using None G by (simp add: placeMove_def Let_def)
    have b: "(gridOK (games q b) \<longrightarrow> gridOK (G b)) \<and> set (t_moves (games q b)) \<subseteq> set (t_moves (G b))" for b
      using Gb[rule_format, of b] gridOK_boardAfter[of "games q b" ?b mv b]
        boardAfter_log_mono[of "games q b" ?b mv b] by auto
    show ?thesis using s b by blast
  next
    case (Some m)
    let ?V = "(s_publiclyVisible q)(?b := (s_publiclyVisible q ?b)(?r := (s_publiclyVisible q ?b ?r)(?c := True)))"
    let ?q1 = "q\<lparr>s_publiclyVisible := ?V, moveCount := moveCount q + 1, s_moves := s_moves q @ [move mv]\<rparr>"
    let ?pass = "\<lparr>playerID = playerID mv, move = \<lparr>row = - 1, col = - 1, gamePiece = gamePiece m, board = ?b\<rparr>\<rparr>"
    obtain G where G: "snd (applyMoveWithBlanks ?b ?pass ?q1) = ?q1\<lparr>games := G\<rparr>"
      and Gb: "\<forall>b. G b = games ?q1 b \<or> G b = boardAfter ?b ?pass b (games ?q1 b)"
      using applyMoveWithBlanks_shape[of ?b ?pass ?q1] by blast
    have s: "snd (placeMove mv q) =
            q\<lparr>s_publiclyVisible := ?V, moveCount := moveCount q + 1,
              s_moves := s_moves q @ [move mv], games := G\<rparr>"
      using Some G by (simp add: placeMove_def Let_def)
    have b: "(gridOK (games q b) \<longrightarrow> gridOK (G b)) \<and> set (t_moves (games q b)) \<subseteq> set (t_moves (G b))" for b
      using Gb[rule_format, of b] gridOK_boardAfter[of "games q b" ?b ?pass b]
        boardAfter_log_mono[of "games q b" ?b ?pass b] by auto
    have m: "m \<in> set (t_moves (games q ?b)) \<and> row m = ?r \<and> col m = ?c"
      using findCollision_Some[OF Some] by simp
    have v1: "?V b r c \<longrightarrow>
              s_publiclyVisible q b r c \<or> (\<exists>m \<in> set (t_moves (games q b)). row m = r \<and> col m = c)" for b r c
      using m by (auto split: if_splits)
    have v2: "s_publiclyVisible q b r c \<longrightarrow> ?V b r c" for b r c
      by simp
    show ?thesis using s b v1 v2 by blast
  qed
qed

lemma checkForWins_simps [simp]:
  "games (checkForWins q) = games q"
  "s_moves (checkForWins q) = s_moves q"
  "moveCount (checkForWins q) = moveCount q"
  "s_publiclyVisible (checkForWins q) = s_publiclyVisible q"
  "s_x (checkForWins q) = s_x q"
  "s_o (checkForWins q) = s_o q"
  "s_status (checkForWins q) = s_status q"
  by (simp_all add: checkForWins_def Let_def)

lemma checkForGameEnding_simps [simp]:
  "games (checkForGameEnding q) = games q"
  "s_moves (checkForGameEnding q) = s_moves q"
  "moveCount (checkForGameEnding q) = moveCount q"
  "s_publiclyVisible (checkForGameEnding q) = s_publiclyVisible q"
  "s_x (checkForGameEnding q) = s_x q"
  "s_o (checkForGameEnding q) = s_o q"
  "s_xScore (checkForGameEnding q) = s_xScore q"
  "s_oScore (checkForGameEnding q) = s_oScore q"
  by (simp_all add: checkForGameEnding_def Let_def)

lemma checkForGameEnding_status:
  "s_status (checkForGameEnding q) =
     (if \<forall>b. t_status (games q b) = OVER then OVER else s_status q)"
proof -
  have "(\<forall>b. t_status (games q b) = OVER) \<longleftrightarrow>
          list_all (\<lambda>b. t_status (games q b) = OVER) [BoardA, BoardB, BoardC]"
    by (auto intro: BoardId.exhaust) (metis BoardId.exhaust)
  then show ?thesis by (simp add: checkForGameEnding_def Let_def)
qed

lemma validateMove_in_progress: "validateMove mv q = None \<Longrightarrow> s_status q = IN_PROGRESS"
  by (auto simp add: validateMove_def Let_def split: if_splits option.splits)

lemma applyMove_cases:
  obtains (rejected) e where "validateMove (cleanMove mv0 q) q = Some e" "applyMove mv0 q = (Some e, q)"
  | (failed) e where "validateMove (cleanMove mv0 q) q = None"
      "applyMove mv0 q = (Some e, snd (placeMove (cleanMove mv0 q) q))"
      "fst (placeMove (cleanMove mv0 q) q) = Some e"
  | (accepted) "validateMove (cleanMove mv0 q) q = None"
      "fst (placeMove (cleanMove mv0 q) q) = None"
      "applyMove mv0 q =
         (None, checkForGameEnding (checkForWins (snd (placeMove (cleanMove mv0 q) q))))"
proof (cases "validateMove (cleanMove mv0 q) q")
  case (Some e)
  then show ?thesis using rejected by (simp add: applyMove_def Let_def)
next
  case None
  obtain e q' where p: "placeMove (cleanMove mv0 q) q = (e, q')"
    by (cases "placeMove (cleanMove mv0 q) q")
  show ?thesis
  proof (cases e)
    case None': None
    then show ?thesis using accepted None p by (simp add: applyMove_def Let_def)
  next
    case (Some err)
    then show ?thesis using failed None p by (simp add: applyMove_def Let_def)
  qed
qed

lemma invariant_placed:
  assumes inv: "invariant q" and st: "s_status q = IN_PROGRESS"
  shows "invariant (snd (placeMove mv q))"
    and "invariant (checkForGameEnding (checkForWins (snd (placeMove mv q))))"
proof -
  obtain V G where s: "snd (placeMove mv q) =
            q\<lparr>s_publiclyVisible := V, moveCount := moveCount q + 1,
              s_moves := s_moves q @ [move mv], games := G\<rparr>"
    and b: "\<forall>b. (gridOK (games q b) \<longrightarrow> gridOK (G b)) \<and>
              set (t_moves (games q b)) \<subseteq> set (t_moves (G b))"
    and v: "\<forall>b r c. V b r c \<longrightarrow>
              s_publiclyVisible q b r c \<or> (\<exists>m \<in> set (t_moves (games q b)). row m = r \<and> col m = c)"
    using placeMove_shape[of mv q] by blast
  let ?q2 = "snd (placeMove mv q)"
  have seats: "seatsOK ?q2" using inv s by (simp add: invariant_def seatsOK_def)
  have log: "logOK ?q2" using inv st s by (simp add: invariant_def logOK_def)
  have grid: "\<forall>b. gridOK (games ?q2 b)" using inv s b by (simp add: invariant_def)
  have vis: "visibleOK ?q2"
    unfolding visibleOK_def
  proof (intro allI impI)
    fix b r c
    assume "s_publiclyVisible ?q2 b r c"
    then have "V b r c" using s by simp
    then have "\<exists>m \<in> set (t_moves (games q b)). row m = r \<and> col m = c"
      using v inv unfolding invariant_def visibleOK_def by blast
    then show "\<exists>m \<in> set (t_moves (games ?q2 b)). row m = r \<and> col m = c"
      using b s by auto
  qed
  show i2: "invariant ?q2" using seats log grid vis by (simp add: invariant_def)
  let ?q3 = "checkForGameEnding (checkForWins ?q2)"
  have st2: "s_status ?q2 = IN_PROGRESS" using s st by simp
  have st3: "s_status ?q3 = IN_PROGRESS \<or> s_status ?q3 = OVER"
    using st2 by (simp add: checkForGameEnding_status)
  have "seatsOK ?q3" using seats st2 by (simp add: seatsOK_def)
  moreover have "logOK ?q3" using log st3 by (auto simp add: logOK_def)
  moreover have "\<forall>b. gridOK (games ?q3 b)" using grid by simp
  moreover have "visibleOK ?q3" using vis by (simp add: visibleOK_def)
  ultimately show "invariant ?q3" by (simp add: invariant_def)
qed

lemma invariant_applyMove: "invariant q \<Longrightarrow> invariant (snd (applyMove mv0 q))"
proof (cases mv0 q rule: applyMove_cases)
  case (rejected e)
  assume "invariant q"
  then show ?thesis using rejected by simp
next
  case (failed e)
  assume "invariant q"
  then show ?thesis
    using failed invariant_placed(1)[of q "cleanMove mv0 q"] validateMove_in_progress by simp
next
  case accepted
  assume "invariant q"
  then show ?thesis
    using accepted invariant_placed(2)[of q "cleanMove mv0 q"] validateMove_in_progress by simp
qed

lemma invariant_join: "invariant q \<Longrightarrow> invariant (snd (join p q))"
  unfolding invariant_def
proof (intro conjI)
  assume inv: "seatsOK q \<and> logOK q \<and> (\<forall>b. gridOK (games q b)) \<and> visibleOK q"
  show "seatsOK (snd (join p q))"
    using inv by (auto simp add: join_def seatsOK_def startIfSeated_def joinGames_def falsy_def)
  show "logOK (snd (join p q))"
    using inv by (auto simp add: join_def logOK_def startIfSeated_def joinGames_def)
  show "\<forall>b. gridOK (games (snd (join p q)) b)"
    using inv gridOK_join by (auto simp add: join_def startIfSeated_def joinGames_def)
  show "visibleOK (snd (join p q))"
    using inv by (auto simp add: join_def visibleOK_def startIfSeated_def joinGames_def)
qed

lemma invariant_leave: "invariant q \<Longrightarrow> invariant (snd (leave p q))"
  unfolding invariant_def
proof (intro conjI)
  assume inv: "seatsOK q \<and> logOK q \<and> (\<forall>b. gridOK (games q b)) \<and> visibleOK q"
  show "seatsOK (snd (leave p q))"
    using inv by (auto simp add: leave_def seatsOK_def leaveGames_def)
  show "logOK (snd (leave p q))"
    using inv by (auto simp add: leave_def logOK_def leaveGames_def)
  show "\<forall>b. gridOK (games (snd (leave p q)) b)"
    using inv gridOK_leave by (auto simp add: leave_def leaveGames_def)
  show "visibleOK (snd (leave p q))"
    using inv by (auto simp add: leave_def visibleOK_def leaveGames_def)
qed

lemma invariant_new: "invariant new_QuantumTicTacToeGame"
  by (simp add: invariant_def seatsOK_def logOK_def gridOK_def visibleOK_def
      new_QuantumTicTacToeGame_def new_TicTacToeGame_def)

lemma invariant_exec: "invariant q \<Longrightarrow> invariant (snd (exec c q))"
  using invariant_join invariant_leave invariant_applyMove by (cases c) simp_all

lemma reachable_invariant: "reachable q \<Longrightarrow> invariant q"
  by (induction rule: reachable.induct) (simp_all add: invariant_new invariant_exec)

lemma reachable_run: "reachable q \<Longrightarrow> reachable (run cs q)"
  by (induction cs arbitrary: q) (simp_all add: reachable_step)

section \<open>A validated move is never refused by a board\<close>

lemma validateMove_scan:
  "validateMove mv q = None \<Longrightarrow>
     scanOccupied (t_moves (games q (board (move mv)))) (move mv)
       (s_publiclyVisible q (board (move mv)) (row (move mv)) (col (move mv))) = None"
  by (auto simp add: validateMove_def Let_def split: if_splits option.splits)

lemma pass_never_fails:
  "row (move mv) = - 1 \<Longrightarrow> col (move mv) = - 1 \<Longrightarrow> \<not> boardFails target mv b g"
  by (simp add: boardFails_def moveFor_def TicTacToeGame_applyMove_def isPass_def)

lemma blank_never_fails: "b \<noteq> target \<Longrightarrow> \<not> boardFails target mv b g"
  by (simp add: boardFails_def moveFor_def TicTacToeGame_applyMove_def isPass_def)

lemma target_fails:
  "boardFails target mv target g \<Longrightarrow> t_board g (row (move mv)) (col (move mv)) \<noteq> None"
  by (auto simp add: boardFails_def moveFor_def TicTacToeGame_applyMove_def applyRealMove_def
      split: if_splits)

lemma applyMoveWithBlanks_ok:
  assumes "\<not> boardFails target mv target (games q target)"
  shows "fst (applyMoveWithBlanks target mv q) = None"
    and "games (snd (applyMoveWithBlanks target mv q)) b = boardAfter target mv b (games q b)"
proof -
  have d: "distinct [BoardA, BoardB, BoardC]" by simp
  have "\<not> boardFails target mv b' (games q b')" for b'
    using assms blank_never_fails by (cases "b' = target") auto
  then have n: "\<forall>b' \<in> set [BoardA, BoardB, BoardC]. \<not> boardFails target mv b' (games q b')"
    by blast
  have all: "b \<in> set [BoardA, BoardB, BoardC]" by (cases b) simp_all
  show "fst (applyMoveWithBlanks target mv q) = None"
    using forEachGame_ok[OF d n] by (simp add: applyMoveWithBlanks_def)
  show "games (snd (applyMoveWithBlanks target mv q)) b = boardAfter target mv b (games q b)"
    using forEachGame_ok[OF d n] all unfolding applyMoveWithBlanks_def by presburger
qed

lemma applyMoveWithBlanks_accepted:
  assumes "fst (applyMoveWithBlanks target mv q) = None"
  shows "games (snd (applyMoveWithBlanks target mv q)) b = boardAfter target mv b (games q b)"
proof -
  have d: "distinct [BoardA, BoardB, BoardC]" by simp
  have t: "target \<in> set [BoardA, BoardB, BoardC]" by (cases target) simp_all
  have "\<forall>b' \<in> set [BoardA, BoardB, BoardC]. \<not> boardFails target mv b' (games q b')"
    using forEachGame_fst_None[OF d, of target mv q] assms
    unfolding applyMoveWithBlanks_def by blast
  then have "\<not> boardFails target mv target (games q target)"
    using t by blast
  then show ?thesis by (rule applyMoveWithBlanks_ok(2))
qed

lemma placeMove_ok:
  assumes grid: "gridOK (games q (board (move mv)))" and val: "validateMove mv q = None"
  shows "fst (placeMove mv q) = None"
proof -
  let ?b = "board (move mv)" and ?r = "row (move mv)" and ?c = "col (move mv)"
  show ?thesis
  proof (cases "findCollision (t_moves (games q ?b)) (move mv) (s_publiclyVisible q ?b ?r ?c)")
    case (Some m)
    then show ?thesis
      by (simp add: placeMove_def Let_def applyMoveWithBlanks_ok(1) pass_never_fails)
  next
    case None
    let ?q1 = "q\<lparr>s_moves := s_moves q @ [move mv], moveCount := moveCount q + 1\<rparr>"
    have "\<not> boardFails ?b mv ?b (games ?q1 ?b)"
    proof
      assume "boardFails ?b mv ?b (games ?q1 ?b)"
      then have "t_board (games q ?b) ?r ?c \<noteq> None" using target_fails by fastforce
      then have ex: "\<exists>m \<in> set (t_moves (games q ?b)). row m = ?r \<and> col m = ?c"
        using grid by (simp add: gridOK_def)
      then have "s_publiclyVisible q ?b ?r ?c" using None by (simp add: findCollision_None)
      then have "list_ex (\<lambda>m. row m = ?r \<and> col m = ?c \<and>
                   (s_publiclyVisible q ?b ?r ?c \<or> gamePiece m = gamePiece (move mv)))
                 (t_moves (games q ?b))"
        using ex by (auto simp add: list_ex_iff)
      then show False using validateMove_scan[OF val] by (simp add: scanOccupied_None)
    qed
    then show ?thesis using None by (simp add: placeMove_def Let_def applyMoveWithBlanks_ok(1))
  qed
qed

lemma join_rejected: "fst (join p q) = Some e \<Longrightarrow> snd (join p q) = q"
  by (auto simp add: join_def split: if_splits)

lemma leave_rejected: "fst (leave p q) = Some e \<Longrightarrow> snd (leave p q) = q"
  by (auto simp add: leave_def split: if_splits)

lemma applyMove_rejected:
  assumes "\<forall>b. gridOK (games q b)" and "fst (applyMove mv0 q) = Some e"
  shows "snd (applyMove mv0 q) = q \<and> validateMove (cleanMove mv0 q) q = Some e"
proof (cases mv0 q rule: applyMove_cases)
  case (rejected e')
  then show ?thesis using assms(2) by simp
next
  case (failed e')
  then show ?thesis using placeMove_ok[of q "cleanMove mv0 q"] assms(1) by simp
next
  case accepted
  then show ?thesis using assms(2) by simp
qed

section \<open>Accepted moves\<close>

lemma seats_in_progress:
  "reachable q \<Longrightarrow> s_status q = IN_PROGRESS \<Longrightarrow>
     s_x q \<noteq> None \<and> s_o q \<noteq> None \<and> s_x q \<noteq> s_o q"
  using reachable_invariant[of q] by (auto simp add: invariant_def seatsOK_def falsy_def)

lemma accepted_shape:
  assumes "applyMove mv0 q = (None, q')"
  obtains q2 where "q' = checkForGameEnding (checkForWins q2)"
    and "s_status q2 = IN_PROGRESS" and "s_status q = IN_PROGRESS"
    and "s_x q2 = s_x q" and "s_o q2 = s_o q"
    and "q2 = snd (placeMove (cleanMove mv0 q) q)"
    and "fst (placeMove (cleanMove mv0 q) q) = None"
    and "validateMove (cleanMove mv0 q) q = None"
proof (cases mv0 q rule: applyMove_cases)
  case (rejected e)
  then show ?thesis using assms by simp
next
  case (failed e)
  then show ?thesis using assms by simp
next
  case accepted
  let ?q2 = "snd (placeMove (cleanMove mv0 q) q)"
  obtain V G where s: "?q2 =
            q\<lparr>s_publiclyVisible := V, moveCount := moveCount q + 1,
              s_moves := s_moves q @ [move (cleanMove mv0 q)], games := G\<rparr>"
    using placeMove_shape[of "cleanMove mv0 q" q] by blast
  have st: "s_status q = IN_PROGRESS" using accepted(1) by (rule validateMove_in_progress)
  have 1: "q' = checkForGameEnding (checkForWins ?q2)" using accepted(3) assms by simp
  have 2: "s_status ?q2 = IN_PROGRESS" using s st by simp
  have 3: "s_x ?q2 = s_x q" "s_o ?q2 = s_o q" using s by simp_all
  show ?thesis using that[OF 1 2 st 3 refl accepted(2) accepted(1)] .
qed

lemma checkForWins_scores:
  "s_xScore (checkForWins q) = sum_list (map (\<lambda>b. fst (scoreOf q b)) allBoards)"
  "s_oScore (checkForWins q) = sum_list (map (\<lambda>b. snd (scoreOf q b)) allBoards)"
  "p_xScore (checkForWins q) = s_xScore (checkForWins q)"
  "p_oScore (checkForWins q) = s_oScore (checkForWins q)"
  "s_winner (checkForWins q) = s_winner q"
  by (simp_all add: checkForWins_def allBoards_def Let_def)

lemma checkForGameEnding_winner:
  "s_status (checkForGameEnding q) = OVER \<Longrightarrow> s_status q \<noteq> OVER \<Longrightarrow>
   s_winner (checkForGameEnding q) =
     (if p_xScore q > p_oScore q then s_x q else if p_xScore q < p_oScore q then s_o q else None)"
  by (auto simp add: checkForGameEnding_def Let_def split: if_splits)




lemma scoreOf_checks [simp]:
  "scoreOf (checkForGameEnding q) b = scoreOf q b"
  "scoreOf (checkForWins q) b = scoreOf q b"
  by (simp_all add: scoreOf_def Let_def)

lemma reachable_seated: "reachable seated"
  unfolding seated_def by (rule reachable_run) (rule reachable_new)

lemma accepted_pair: "fst (applyMove mv q) = None \<Longrightarrow> applyMove mv q = (None, snd (applyMove mv q))"
  by (metis prod.collapse)

lemma applyMoveWithBlanks_exact:
  assumes "fst (applyMoveWithBlanks target mv q) = None"
  shows "snd (applyMoveWithBlanks target mv q) =
           q\<lparr>games := (\<lambda>b. boardAfter target mv b (games q b))\<rparr>"
proof -
  obtain G where G: "snd (applyMoveWithBlanks target mv q) = q\<lparr>games := G\<rparr>"
    using applyMoveWithBlanks_shape[of target mv q] by blast
  have "G b = boardAfter target mv b (games q b)" for b
    using applyMoveWithBlanks_accepted[OF assms, of b] G by simp
  then have "G = (\<lambda>b. boardAfter target mv b (games q b))" by (rule ext)
  then show ?thesis using G by simp
qed

lemma boardAfter_blank:
  "b \<noteq> target \<Longrightarrow>
   boardAfter target mv b g =
     (if t_status g = IN_PROGRESS then applyPassMove (gamePiece (move mv)) g else g)"
  by (simp add: boardAfter_def moveFor_def TicTacToeGame_applyMove_def isPass_def)

lemma boardAfter_pass:
  "row (move mv) = - 1 \<Longrightarrow> col (move mv) = - 1 \<Longrightarrow> gamePiece (move mv) = p \<Longrightarrow>
   boardAfter target mv b g =
     (if t_status g = IN_PROGRESS then applyPassMove p g else g)"
  by (auto simp add: boardAfter_def moveFor_def TicTacToeGame_applyMove_def isPass_def)

lemma boardAfter_length:
  "\<not> boardFails target mv b g \<Longrightarrow>
   length (t_moves (boardAfter target mv b g)) =
     length (t_moves g) + (if t_status g = IN_PROGRESS then 1 else 0)"
  using applyMove_log[of "moveFor target mv b" g]
  by (auto simp add: boardAfter_def boardFails_def split: sum.splits)

lemma placeMove_collision:
  assumes "findCollision (t_moves (games q (board (move mv)))) (move mv)
             (s_publiclyVisible q (board (move mv)) (row (move mv)) (col (move mv))) = Some m"
  shows "fst (placeMove mv q) = None"
    and "snd (placeMove mv q) =
      q\<lparr>s_publiclyVisible :=
           (s_publiclyVisible q)(board (move mv) := (s_publiclyVisible q (board (move mv)))
              (row (move mv) := (s_publiclyVisible q (board (move mv)) (row (move mv)))(col (move mv) := True))),
        moveCount := moveCount q + 1,
        s_moves := s_moves q @ [move mv],
        games := (\<lambda>b. if t_status (games q b) = IN_PROGRESS
                       then applyPassMove (gamePiece m) (games q b) else games q b)\<rparr>"
proof -
  let ?b = "board (move mv)"
  let ?pass = "\<lparr>playerID = playerID mv, move = \<lparr>row = - 1, col = - 1, gamePiece = gamePiece m, board = ?b\<rparr>\<rparr>"
  let ?q1 = "q\<lparr>s_publiclyVisible :=
           (s_publiclyVisible q)(board (move mv) := (s_publiclyVisible q (board (move mv)))
              (row (move mv) := (s_publiclyVisible q (board (move mv)) (row (move mv)))(col (move mv) := True))),
        moveCount := moveCount q + 1,
        s_moves := s_moves q @ [move mv]\<rparr>"
  have p: "placeMove mv q = applyMoveWithBlanks ?b ?pass ?q1"
    using assms by (simp add: placeMove_def Let_def)
  have f: "fst (applyMoveWithBlanks ?b ?pass ?q1) = None"
    by (rule applyMoveWithBlanks_ok(1)) (simp add: pass_never_fails)
  show "fst (placeMove mv q) = None" using p f by simp
  have "snd (applyMoveWithBlanks ?b ?pass ?q1) =
          ?q1\<lparr>games := (\<lambda>b. boardAfter ?b ?pass b (games ?q1 b))\<rparr>"
    using f by (rule applyMoveWithBlanks_exact)
  moreover have "boardAfter ?b ?pass b g =
      (if t_status g = IN_PROGRESS then applyPassMove (gamePiece m) g else g)" for b g
    by (rule boardAfter_pass) simp_all
  ultimately show "snd (placeMove mv q) =
      q\<lparr>s_publiclyVisible :=
           (s_publiclyVisible q)(board (move mv) := (s_publiclyVisible q (board (move mv)))
              (row (move mv) := (s_publiclyVisible q (board (move mv)) (row (move mv)))(col (move mv) := True))),
        moveCount := moveCount q + 1,
        s_moves := s_moves q @ [move mv],
        games := (\<lambda>b. if t_status (games q b) = IN_PROGRESS
                       then applyPassMove (gamePiece m) (games q b) else games q b)\<rparr>"
    using p by simp
qed

lemma placeMove_plain:
  assumes "findCollision (t_moves (games q (board (move mv)))) (move mv)
             (s_publiclyVisible q (board (move mv)) (row (move mv)) (col (move mv))) = None"
    and "fst (placeMove mv q) = None"
  shows "snd (placeMove mv q) =
      q\<lparr>s_moves := s_moves q @ [move mv], moveCount := moveCount q + 1,
        games := (\<lambda>b. boardAfter (board (move mv)) mv b (games q b))\<rparr>"
proof -
  let ?q1 = "q\<lparr>s_moves := s_moves q @ [move mv], moveCount := moveCount q + 1\<rparr>"
  have p: "placeMove mv q = applyMoveWithBlanks (board (move mv)) mv ?q1"
    using assms(1) by (simp add: placeMove_def Let_def)
  then have "fst (applyMoveWithBlanks (board (move mv)) mv ?q1) = None" using assms(2) by simp
  then have "snd (applyMoveWithBlanks (board (move mv)) mv ?q1) =
          ?q1\<lparr>games := (\<lambda>b. boardAfter (board (move mv)) mv b (games ?q1 b))\<rparr>"
    by (rule applyMoveWithBlanks_exact)
  then show ?thesis using p by simp
qed

lemma placeMove_blank:
  assumes "fst (placeMove mv q) = None" and "b \<noteq> board (move mv)"
  shows "games (snd (placeMove mv q)) b =
           (if t_status (games q b) = IN_PROGRESS
            then applyPassMove (blankPiece mv q) (games q b) else games q b)"
proof (cases "findCollision (t_moves (games q (board (move mv)))) (move mv)
             (s_publiclyVisible q (board (move mv)) (row (move mv)) (col (move mv)))")
  case None
  then show ?thesis
    using placeMove_plain[OF None assms(1)] assms(2) by (simp add: blankPiece_def boardAfter_blank)
next
  case (Some m)
  then show ?thesis
    using placeMove_collision(2)[OF Some] by (simp add: blankPiece_def)
qed

lemma placeMove_counts:
  assumes "fst (placeMove mv q) = None"
  shows "moveCount (snd (placeMove mv q)) = moveCount q + 1"
    and "s_moves (snd (placeMove mv q)) = s_moves q @ [move mv]"
    and "length (t_moves (games (snd (placeMove mv q)) b)) =
           length (t_moves (games q b)) + (if t_status (games q b) = IN_PROGRESS then 1 else 0)"
proof -
  obtain V G where s: "snd (placeMove mv q) =
            q\<lparr>s_publiclyVisible := V, moveCount := moveCount q + 1,
              s_moves := s_moves q @ [move mv], games := G\<rparr>"
    using placeMove_shape[of mv q] by blast
  show "moveCount (snd (placeMove mv q)) = moveCount q + 1" using s by simp
  show "s_moves (snd (placeMove mv q)) = s_moves q @ [move mv]" using s by simp
  show "length (t_moves (games (snd (placeMove mv q)) b)) =
           length (t_moves (games q b)) + (if t_status (games q b) = IN_PROGRESS then 1 else 0)"
  proof (cases "findCollision (t_moves (games q (board (move mv)))) (move mv)
             (s_publiclyVisible q (board (move mv)) (row (move mv)) (col (move mv)))")
    case (Some m)
    then show ?thesis using placeMove_collision(2)[OF Some] by (simp add: applyPassMove_def)
  next
    case None
    let ?q1 = "q\<lparr>s_moves := s_moves q @ [move mv], moveCount := moveCount q + 1\<rparr>"
    have p: "placeMove mv q = applyMoveWithBlanks (board (move mv)) mv ?q1"
      using None by (simp add: placeMove_def Let_def)
    have d: "distinct [BoardA, BoardB, BoardC]" by simp
    have "\<forall>b' \<in> set [BoardA, BoardB, BoardC]. \<not> boardFails (board (move mv)) mv b' (games ?q1 b')"
      using forEachGame_fst_None[OF d, of "board (move mv)" mv ?q1] assms p
      unfolding applyMoveWithBlanks_def by simp
    moreover have "b \<in> set [BoardA, BoardB, BoardC]" by (cases b) simp_all
    ultimately have "\<not> boardFails (board (move mv)) mv b (games q b)" by auto
    then show ?thesis
      using placeMove_plain[OF None assms] boardAfter_length by simp
  qed
qed

lemma applyMove_accepted:
  assumes "validateMove (cleanMove mv0 q) q = None" and "fst (placeMove (cleanMove mv0 q) q) = None"
  shows "applyMove mv0 q =
           (None, checkForGameEnding (checkForWins (snd (placeMove (cleanMove mv0 q) q))))"
proof (cases mv0 q rule: applyMove_cases)
  case (rejected e)
  then show ?thesis using assms by simp
next
  case (failed e)
  then show ?thesis using assms by simp
next
  case accepted
  then show ?thesis by simp
qed

lemma cleanMove_target [simp]:
  "board (move (cleanMove mv0 q)) = board (move mv0)"
  "row (move (cleanMove mv0 q)) = row (move mv0)"
  "col (move (cleanMove mv0 q)) = col (move mv0)"
  "playerID (cleanMove mv0 q) = playerID mv0"
  by (simp_all add: cleanMove_def)

section \<open>Closed boards, visible cells and the mark of a move\<close>

lemma closed_board_rejects:
  assumes "t_status (games q b) = OVER" "t_moves (games q b) \<noteq> []" "board (move mv) = b"
  shows "applyMove mv q = (Some INVALID_MOVE_MESSAGE, q)"
proof -
  have "boardClosed (cleanMove mv q) q" using assms by (simp add: boardClosed_def)
  then have "validateMove (cleanMove mv q) q = Some INVALID_MOVE_MESSAGE"
    by (simp add: validateMove_codeOrder codeOrder_def)
  then show ?thesis by (rule applyMove_rejected_by_validation)
qed

lemma visible_cell_rejects:
  assumes inv: "invariant q" and vis: "s_publiclyVisible q (board (move mv)) (row (move mv)) (col (move mv))"
  shows "applyMove mv q = (Some INVALID_MOVE_MESSAGE, q)"
proof -
  let ?mv = "cleanMove mv q"
  have "\<exists>m \<in> set (t_moves (games q (board (move mv)))). row m = row (move mv) \<and> col m = col (move mv)"
    using inv vis unfolding invariant_def visibleOK_def by blast
  then have "cellClosed ?mv q" using vis by (auto simp add: cellClosed_def list_ex_iff)
  then have "validateMove ?mv q = Some INVALID_MOVE_MESSAGE"
    by (simp add: validateMove_codeOrder codeOrder_def)
  then show ?thesis by (rule applyMove_rejected_by_validation)
qed

lemma visible_kept_by_applyMove:
  assumes "s_publiclyVisible q b r c"
  shows "s_publiclyVisible (snd (applyMove mv0 q)) b r c"
proof -
  obtain V G where s: "snd (placeMove (cleanMove mv0 q) q) =
            q\<lparr>s_publiclyVisible := V, moveCount := moveCount q + 1,
              s_moves := s_moves q @ [move (cleanMove mv0 q)], games := G\<rparr>"
    and v: "\<forall>b r c. s_publiclyVisible q b r c \<longrightarrow> V b r c"
    using placeMove_shape[of "cleanMove mv0 q" q] by blast
  have p: "s_publiclyVisible (snd (placeMove (cleanMove mv0 q) q)) b r c"
    using s v assms by simp
  show ?thesis
  proof (cases mv0 q rule: applyMove_cases)
    case (rejected e)
    then show ?thesis using assms by simp
  next
    case (failed e)
    then show ?thesis using p by simp
  next
    case accepted
    then show ?thesis using p by simp
  qed
qed

lemma visible_kept:
  assumes inv: "invariant q" and vis: "s_publiclyVisible q b r c"
  shows "s_publiclyVisible (snd (exec call q)) b r c"
proof (cases call)
  case (Join p)
  then show ?thesis using vis by (simp add: join_def startIfSeated_def joinGames_def)
next
  case (Leave p)
  have "s_status q \<noteq> WAITING_TO_START"
    using inv vis by (auto simp add: invariant_def logOK_def)
  then show ?thesis using vis Leave by (simp add: leave_def leaveGames_def)
next
  case (ApplyMove mv)
  then show ?thesis using vis visible_kept_by_applyMove by simp
qed

lemma visible_kept_run:
  "reachable q \<Longrightarrow> s_publiclyVisible q b r c \<Longrightarrow> s_publiclyVisible (run cs q) b r c"
proof (induction cs arbitrary: q)
  case Nil
  then show ?case by simp
next
  case (Cons call cs)
  have "reachable (snd (exec call q))" using Cons.prems(1) by (rule reachable_step)
  moreover have "s_publiclyVisible (snd (exec call q)) b r c"
    using visible_kept[OF reachable_invariant[OF Cons.prems(1)] Cons.prems(2)] .
  ultimately show ?case using Cons.IH by simp
qed

lemma cleanMove_ignores_mark:
  "cleanMove (mv0\<lparr>move := (move mv0)\<lparr>gamePiece := g\<rparr>\<rparr>) q = cleanMove mv0 q"
  by (simp add: cleanMove_def)

lemma applyMove_via_cleanMove:
  "cleanMove mv1 q = cleanMove mv0 q \<Longrightarrow> applyMove mv1 q = applyMove mv0 q"
  by (simp add: applyMove_def)

lemma codeOrder_errors:
  "codeOrder mv q = Some e \<Longrightarrow>
     e = INVALID_MOVE_MESSAGE \<or> e = MOVE_NOT_YOUR_TURN_MESSAGE \<or> e = GAME_NOT_IN_PROGRESS_MESSAGE"
  by (auto simp add: codeOrder_def split: if_splits)

section \<open>The outcome of a board and the recorded winner\<close>














lemma applyMove_seats [simp]:
  "s_x (snd (applyMove mv0 q)) = s_x q" "s_o (snd (applyMove mv0 q)) = s_o q"
proof -
  obtain V G where s: "snd (placeMove (cleanMove mv0 q) q) =
            q\<lparr>s_publiclyVisible := V, moveCount := moveCount q + 1,
              s_moves := s_moves q @ [move (cleanMove mv0 q)], games := G\<rparr>"
    using placeMove_shape[of "cleanMove mv0 q" q] by blast
  have "s_x (snd (applyMove mv0 q)) = s_x q \<and> s_o (snd (applyMove mv0 q)) = s_o q"
  proof (cases mv0 q rule: applyMove_cases)
    case (rejected e)
    then show ?thesis by simp
  next
    case (failed e)
    then show ?thesis using s by simp
  next
    case accepted
    then show ?thesis using s by simp
  qed
  then show "s_x (snd (applyMove mv0 q)) = s_x q" "s_o (snd (applyMove mv0 q)) = s_o q"
    by simp_all
qed






section \<open>The claims\<close>

subsection \<open>C1: a collision\<close>

text \<open>
  C1, as amended. In a match in progress, let a move that has no other defect (it is the
  mover's turn, and the targeted board is not terminal with a non-empty log) target a
  cell that already holds the opposing mark and is not yet publicly visible. Then the
  move is accepted as a collision: the visibility flag of the cell is set, the incoming
  move is appended to the global move log, the turn index advances by exactly one, and
  no mark is placed: the grid of the targeted board is unchanged, the cell keeps its
  mark, and the board's log receives a synthesized pass.
\<close>

theorem C1_collision:
  assumes r: "reachable q"
    and st: "s_status q = IN_PROGRESS"
    and turn: "\<not> outOfTurn (cleanMove mv0 q) q"
    and live: "\<not> boardClosed (cleanMove mv0 q) q"
    and cell: "t_board (games q (board (move mv0))) (row (move mv0)) (col (move mv0)) = Some p"
    and opp: "p \<noteq> gamePiece (move (cleanMove mv0 q))"
    and hid: "\<not> s_publiclyVisible q (board (move mv0)) (row (move mv0)) (col (move mv0))"
  shows "fst (applyMove mv0 q) = None \<and>
     s_publiclyVisible (snd (applyMove mv0 q)) (board (move mv0)) (row (move mv0)) (col (move mv0)) \<and>
     s_moves (snd (applyMove mv0 q)) = s_moves q @ [move (cleanMove mv0 q)] \<and>
     moveCount (snd (applyMove mv0 q)) = moveCount q + 1 \<and>
     t_board (games (snd (applyMove mv0 q)) (board (move mv0))) = t_board (games q (board (move mv0))) \<and>
     t_board (games (snd (applyMove mv0 q)) (board (move mv0))) (row (move mv0)) (col (move mv0)) = Some p \<and>
     t_moves (games (snd (applyMove mv0 q)) (board (move mv0))) =
       t_moves (games q (board (move mv0))) @ [\<lparr>row = - 1, col = - 1, gamePiece = p\<rparr>]"
proof -
  let ?mv = "cleanMove mv0 q"
  let ?b = "board (move mv0)" and ?r = "row (move mv0)" and ?c = "col (move mv0)"
  let ?g = "games q ?b"
  have grid: "gridOK ?g" using reachable_invariant[OF r] by (simp add: invariant_def)
  have notpass: "\<not> (?r = - 1 \<and> ?c = - 1)" using grid cell by (auto simp add: gridOK_def)
  have ex: "\<exists>m \<in> set (t_moves ?g). row m = ?r \<and> col m = ?c"
    using grid cell by (simp add: gridOK_def)
  have piece: "gamePiece m = p" if "m \<in> set (t_moves ?g)" "row m = ?r" "col m = ?c" for m
  proof -
    have "\<not> isPass m" using that notpass by (simp add: isPass_def)
    then have "t_board ?g (row m) (col m) = Some (gamePiece m)"
      using grid that(1) by (simp add: gridOK_def)
    then show ?thesis using that cell by simp
  qed
  have "\<not> cellClosed ?mv q"
    using piece opp hid by (auto simp add: cellClosed_def list_ex_iff)
  then have val: "validateMove ?mv q = None"
    using live turn st by (simp add: validateMove_codeOrder codeOrder_def notInProgress_def)
  obtain m where coll: "findCollision (t_moves ?g) (move ?mv) (s_publiclyVisible q ?b ?r ?c) = Some m"
    using ex hid findCollision_None[of "t_moves ?g" "move ?mv" "s_publiclyVisible q ?b ?r ?c"]
    by (cases "findCollision (t_moves ?g) (move ?mv) (s_publiclyVisible q ?b ?r ?c)") auto
  have mp: "gamePiece m = p" using findCollision_Some[OF coll] piece by simp
  have coll': "findCollision (t_moves (games q (board (move ?mv)))) (move ?mv)
     (s_publiclyVisible q (board (move ?mv)) (row (move ?mv)) (col (move ?mv))) = Some m"
    using coll by simp
  have inprog: "t_status ?g = IN_PROGRESS"
  proof -
    have "t_moves ?g \<noteq> []" using ex by auto
    then have "t_status ?g \<noteq> OVER" using live by (simp add: boardClosed_def)
    moreover have "t_status ?g \<noteq> WAITING_TO_START" using grid by (simp add: gridOK_def)
    ultimately show ?thesis by (cases "t_status ?g") simp_all
  qed
  have a: "applyMove mv0 q = (None, checkForGameEnding (checkForWins (snd (placeMove ?mv q))))"
    using applyMove_accepted[OF val placeMove_collision(1)[OF coll']] .
  show ?thesis
    using a placeMove_collision(2)[OF coll'] inprog mp cell
    by (simp add: applyPassMove_def)
qed

text \<open>O plays A(0,0) right after X has played there.\<close>

theorem C1_collision_witness:
  "s_status opened = IN_PROGRESS \<and>
   t_board (games opened BoardA) 0 0 = Some PieceX \<and>
   \<not> s_publiclyVisible opened BoardA 0 0 \<and>
   fst (applyMove (makeMove ''p2'' BoardA 0 0) opened) = None \<and>
   s_publiclyVisible (snd (applyMove (makeMove ''p2'' BoardA 0 0) opened)) BoardA 0 0 \<and>
   moveCount (snd (applyMove (makeMove ''p2'' BoardA 0 0) opened)) = 2 \<and>
   t_board (games (snd (applyMove (makeMove ''p2'' BoardA 0 0) opened)) BoardA) 0 0 = Some PieceX \<and>
   t_moves (games (snd (applyMove (makeMove ''p2'' BoardA 0 0) opened)) BoardA) =
     [\<lparr>row = 0, col = 0, gamePiece = PieceX\<rparr>, \<lparr>row = - 1, col = - 1, gamePiece = PieceX\<rparr>]"
proof -
  let ?mv0 = "makeMove ''p2'' BoardA 0 0"
  have r: "reachable opened"
    unfolding opened_def by (rule reachable_run) (rule reachable_seated)
  have st: "s_status opened = IN_PROGRESS"
    by (simp add: opened_def seated_eq eval_defs)
  have turn: "\<not> outOfTurn (cleanMove ?mv0 opened) opened"
    by (simp add: outOfTurn_def opened_def seated_eq eval_defs)
  have live: "\<not> boardClosed (cleanMove ?mv0 opened) opened"
    by (simp add: boardClosed_def opened_def seated_eq eval_defs)
  have cell: "t_board (games opened (board (move ?mv0))) (row (move ?mv0)) (col (move ?mv0)) = Some PieceX"
    by (simp add: opened_def seated_eq eval_defs)
  have opp: "PieceX \<noteq> gamePiece (move (cleanMove ?mv0 opened))"
    by (simp add: opened_def seated_eq eval_defs)
  have hid: "\<not> s_publiclyVisible opened (board (move ?mv0)) (row (move ?mv0)) (col (move ?mv0))"
    by (simp add: opened_def seated_eq eval_defs)
  have mc: "moveCount opened = 1" "t_moves (games opened BoardA) = [\<lparr>row = 0, col = 0, gamePiece = PieceX\<rparr>]"
    by (simp_all add: opened_def seated_eq eval_defs)
  have tgt: "board (move ?mv0) = BoardA" "row (move ?mv0) = 0" "col (move ?mv0) = 0"
    by (simp_all add: makeMove_def)
  show ?thesis
    using C1_collision[OF r st turn live cell opp hid] st cell hid mc
    unfolding tgt by simp
qed

text \<open>
  The claim as stated fails: the match is in progress and it is O's turn, the cell
  A(0,0) holds X and is not publicly visible, but board A is won; the move of O on that
  cell is rejected and changes nothing, so no flag is set and no turn is consumed.
\<close>

theorem C1_counterexample:
  "s_status wonA = IN_PROGRESS \<and>
   t_board (games wonA BoardA) 0 0 = Some PieceX \<and>
   gamePiece (move (cleanMove (makeMove ''p2'' BoardA 0 0) wonA)) = PieceO \<and>
   \<not> outOfTurn (cleanMove (makeMove ''p2'' BoardA 0 0) wonA) wonA \<and>
   \<not> s_publiclyVisible wonA BoardA 0 0 \<and>
   applyMove (makeMove ''p2'' BoardA 0 0) wonA = (Some INVALID_MOVE_MESSAGE, wonA)"
proof -
  have 1: "s_status wonA = IN_PROGRESS" "t_board (games wonA BoardA) 0 0 = Some PieceX"
    "gamePiece (move (cleanMove (makeMove ''p2'' BoardA 0 0) wonA)) = PieceO"
    "\<not> s_publiclyVisible wonA BoardA 0 0"
    by (simp_all add: wonA_def seated_eq eval_defs)
  have 2: "\<not> outOfTurn (cleanMove (makeMove ''p2'' BoardA 0 0) wonA) wonA"
    by (simp add: outOfTurn_def wonA_def seated_eq eval_defs)
  have 3: "t_status (games wonA BoardA) = OVER" "t_moves (games wonA BoardA) \<noteq> []"
    by (simp_all add: wonA_def seated_eq eval_defs)
  have 4: "board (move (makeMove ''p2'' BoardA 0 0)) = BoardA" by (simp add: makeMove_def)
  show ?thesis using 1 2 closed_board_rejects[OF 3 4] by simp
qed

subsection \<open>C2: the blanks of a move\<close>

text \<open>
  C2, as amended. After every accepted move, each of the two boards not targeted that is
  in progress receives exactly one synthesized pass (a pass entry appended to its log,
  nothing else changed); a board that is not in progress, such as one that has reached a
  terminal state, receives nothing and stays exactly as it was, and a terminal board
  with a non-empty log rejects every move that targets it.
\<close>

theorem C2_blanks_only_to_boards_in_progress:
  "applyMove mv0 q = (None, q') \<Longrightarrow> b \<noteq> board (move mv0) \<Longrightarrow>
     (t_status (games q b) = IN_PROGRESS \<longrightarrow>
        games q' b = applyPassMove (blankPiece (cleanMove mv0 q) q) (games q b) \<and>
        receivedPass (games q b) (games q' b)) \<and>
     (t_status (games q b) \<noteq> IN_PROGRESS \<longrightarrow>
        games q' b = games q b \<and> \<not> receivedPass (games q b) (games q' b)) \<and>
     (t_status (games q' b) = OVER \<and> t_moves (games q' b) \<noteq> [] \<longrightarrow>
        (\<forall>mv. board (move mv) = b \<longrightarrow> applyMove mv q' = (Some INVALID_MOVE_MESSAGE, q')))"
proof -
  assume a: "applyMove mv0 q = (None, q')" and b: "b \<noteq> board (move mv0)"
  obtain q2 where q': "q' = checkForGameEnding (checkForWins q2)"
    and q2: "q2 = snd (placeMove (cleanMove mv0 q) q)"
    and f: "fst (placeMove (cleanMove mv0 q) q) = None"
    using accepted_shape[OF a] by blast
  have g: "games q' b =
           (if t_status (games q b) = IN_PROGRESS
            then applyPassMove (blankPiece (cleanMove mv0 q) q) (games q b) else games q b)"
    using placeMove_blank[OF f, of b] b by (simp add: q' q2)
  have p: "receivedPass g' (applyPassMove piece g')" for piece g'
    by (cases piece) (simp_all add: receivedPass_def)
  have n: "\<not> receivedPass g' g'" for g'
  proof
    assume "receivedPass g' g'"
    then have "\<exists>piece. t_moves g' = t_moves (applyPassMove piece g')"
      unfolding receivedPass_def by metis
    then show False by (simp add: applyPassMove_def)
  qed
  have c: "\<forall>mv. board (move mv) = b \<longrightarrow> applyMove mv q' = (Some INVALID_MOVE_MESSAGE, q')"
    if "t_status (games q' b) = OVER \<and> t_moves (games q' b) \<noteq> []"
    using that closed_board_rejects[of q' b] by blast
  show ?thesis using g p n c by simp
qed

text \<open>
  O plays on board B after X has won board A: board C, in progress, receives a pass;
  board A, over, is left as it was.
\<close>

theorem C2_blanks_only_to_boards_in_progress_witness:
  "fst (applyMove (makeMove ''p2'' BoardB 1 1) wonA) = None \<and>
   t_status (games wonA BoardA) = OVER \<and>
   games (snd (applyMove (makeMove ''p2'' BoardB 1 1) wonA)) BoardA = games wonA BoardA \<and>
   t_status (games wonA BoardC) = IN_PROGRESS \<and>
   games (snd (applyMove (makeMove ''p2'' BoardB 1 1) wonA)) BoardC =
     applyPassMove PieceO (games wonA BoardC)"
proof -
  let ?mv = "makeMove ''p2'' BoardB 1 1"
  have a: "fst (applyMove ?mv wonA) = None"
    by (simp add: wonA_def seated_eq eval_defs)
  have sA: "t_status (games wonA BoardA) = OVER"
    by (simp add: wonA_def seated_eq eval_defs)
  have sC: "t_status (games wonA BoardC) = IN_PROGRESS"
    by (simp add: wonA_def seated_eq eval_defs)
  have bp: "blankPiece (cleanMove ?mv wonA) wonA = PieceO"
    by (simp add: blankPiece_def wonA_def seated_eq eval_defs)
  have t: "BoardA \<noteq> board (move ?mv)" "BoardC \<noteq> board (move ?mv)"
    by (simp_all add: makeMove_def)
  show ?thesis
    using C2_blanks_only_to_boards_in_progress[OF accepted_pair[OF a] t(1)]
      C2_blanks_only_to_boards_in_progress[OF accepted_pair[OF a] t(2)] a sA sC bp
    by simp
qed

text \<open>
  The claim as stated fails: board A is over and the match goes on, yet an accepted move
  on board B leaves the log of board A at its five entries: no pass is appended.
\<close>

theorem C2_counterexample:
  "fst (applyMove (makeMove ''p2'' BoardB 1 1) wonA) = None \<and>
   s_status (snd (applyMove (makeMove ''p2'' BoardB 1 1) wonA)) = IN_PROGRESS \<and>
   t_status (games wonA BoardA) = OVER \<and>
   t_moves (games (snd (applyMove (makeMove ''p2'' BoardB 1 1) wonA)) BoardA) =
     t_moves (games wonA BoardA) \<and>
   length (t_moves (games wonA BoardA)) = 5"
  by (simp add: wonA_def seated_eq eval_defs)

subsection \<open>C3: the order of validation\<close>

text \<open>
  C3, as amended. \<^verbatim>\<open>_validateMove\<close> raises the first applicable error in the order:
  (b) the targeted board is terminal with a non-empty log (\<^verbatim>\<open>INVALID_MOVE_MESSAGE\<close>), then
  (c) the target cell is occupied and publicly visible or bearing the mover's own mark
  (\<^verbatim>\<open>INVALID_MOVE_MESSAGE\<close>), then (d) the mark does not match the turn parity
  (\<^verbatim>\<open>MOVE_NOT_YOUR_TURN_MESSAGE\<close>), and only then (a) the match is not in progress
  (\<^verbatim>\<open>GAME_NOT_IN_PROGRESS_MESSAGE\<close>); \<^verbatim>\<open>applyMove\<close> rejects the move with that error and
  leaves the state as it was. In particular, when the match is not in progress the error
  is \<^verbatim>\<open>GAME_NOT_IN_PROGRESS_MESSAGE\<close> exactly when the move has none of the defects (b), (c)
  and (d).
\<close>

theorem C3_validation_order:
  "validateMove (cleanMove mv0 q) q = codeOrder (cleanMove mv0 q) q \<and>
   (codeOrder (cleanMove mv0 q) q = Some e \<longrightarrow> applyMove mv0 q = (Some e, q)) \<and>
   (notInProgress q \<longrightarrow>
      (fst (applyMove mv0 q) = Some GAME_NOT_IN_PROGRESS_MESSAGE \<longleftrightarrow>
         \<not> boardClosed (cleanMove mv0 q) q \<and> \<not> cellClosed (cleanMove mv0 q) q \<and>
         \<not> outOfTurn (cleanMove mv0 q) q))"
proof -
  let ?mv = "cleanMove mv0 q"
  have v: "validateMove ?mv q = codeOrder ?mv q" by (rule validateMove_codeOrder)
  have r: "codeOrder ?mv q = Some e \<longrightarrow> applyMove mv0 q = (Some e, q)"
    using v applyMove_rejected_by_validation[of mv0 q e] by simp
  have n: "fst (applyMove mv0 q) = Some GAME_NOT_IN_PROGRESS_MESSAGE \<longleftrightarrow>
         \<not> boardClosed ?mv q \<and> \<not> cellClosed ?mv q \<and> \<not> outOfTurn ?mv q"
    if np: "notInProgress q"
  proof (cases "codeOrder ?mv q")
    case None
    then show ?thesis using np by (simp add: codeOrder_def split: if_splits)
  next
    case (Some err)
    then have "applyMove mv0 q = (Some err, q)"
      using v applyMove_rejected_by_validation[of mv0 q err] by simp
    then show ?thesis using Some np by (auto simp add: codeOrder_def split: if_splits)
  qed
  show ?thesis using v r n by blast
qed

text \<open>
  A move with three defects at once: board A is won, it is O's turn and the remaining
  player is X, and the match is over. The error is that of the closed board.
\<close>

theorem C3_validation_order_witness:
  "boardClosed (cleanMove (makeMove ''p1'' BoardA 1 1) wonA_left) wonA_left \<and>
   outOfTurn (cleanMove (makeMove ''p1'' BoardA 1 1) wonA_left) wonA_left \<and>
   notInProgress wonA_left \<and>
   applyMove (makeMove ''p1'' BoardA 1 1) wonA_left = (Some INVALID_MOVE_MESSAGE, wonA_left) \<and>
   fst (applyMove (makeMove ''p1'' BoardA 1 1) wonA_left) \<noteq> Some GAME_NOT_IN_PROGRESS_MESSAGE"
proof -
  let ?mv = "cleanMove (makeMove ''p1'' BoardA 1 1) wonA_left"
  have b: "boardClosed ?mv wonA_left"
    by (simp add: boardClosed_def wonA_left_def wonA_def seated_eq eval_defs)
  have t: "outOfTurn ?mv wonA_left"
    by (simp add: outOfTurn_def wonA_left_def wonA_def seated_eq eval_defs)
  have n: "notInProgress wonA_left"
    by (simp add: notInProgress_def wonA_left_def wonA_def seated_eq eval_defs)
  have c: "codeOrder ?mv wonA_left = Some INVALID_MOVE_MESSAGE"
    using b by (simp add: codeOrder_def)
  show ?thesis
    using C3_validation_order[of "makeMove ''p1'' BoardA 1 1" wonA_left INVALID_MOVE_MESSAGE] b t n c
    by simp
qed

text \<open>
  The claim as stated fails: after the player seated as X has left, the match is over,
  and a move of the other player is rejected as out of turn, not as a move on a match
  that is not in progress.
\<close>

theorem C3_counterexample:
  "s_status abandoned \<noteq> IN_PROGRESS \<and>
   fst (applyMove (makeMove ''p2'' BoardA 0 0) abandoned) = Some MOVE_NOT_YOUR_TURN_MESSAGE"
  by (simp add: abandoned_def seated_eq eval_defs)

subsection \<open>C4: a rejected call changes nothing\<close>

text \<open>
  C4. In every reachable state, a \<^verbatim>\<open>join\<close>, \<^verbatim>\<open>leave\<close> or \<^verbatim>\<open>applyMove\<close> call that is
  rejected with an error leaves the whole state (the observable match state, the private
  counters and the three boards) exactly as it was before the call.
\<close>

theorem C4_rejected_call_leaves_state:
  "reachable q \<Longrightarrow> fst (exec c q) = Some e \<Longrightarrow> snd (exec c q) = q"
proof -
  assume r: "reachable q" and e: "fst (exec c q) = Some e"
  have g: "\<forall>b. gridOK (games q b)"
    using reachable_invariant[OF r] by (simp add: invariant_def)
  show ?thesis
  proof (cases c)
    case (Join p)
    then show ?thesis using e join_rejected by simp
  next
    case (Leave p)
    then show ?thesis using e leave_rejected by simp
  next
    case (ApplyMove mv)
    then show ?thesis using e g applyMove_rejected by simp
  qed
qed

text \<open>A rejected join, a rejected leave and a rejected move.\<close>

theorem C4_rejected_call_leaves_state_witness:
  "fst (exec (Join ''p3'') seated) = Some GAME_FULL_MESSAGE \<and>
   snd (exec (Join ''p3'') seated) = seated \<and>
   fst (exec (Leave ''p3'') seated) = Some PLAYER_NOT_IN_GAME_MESSAGE \<and>
   snd (exec (Leave ''p3'') seated) = seated \<and>
   fst (exec (ApplyMove (makeMove ''p2'' BoardA 1 1)) wonA) = Some INVALID_MOVE_MESSAGE \<and>
   snd (exec (ApplyMove (makeMove ''p2'' BoardA 1 1)) wonA) = wonA"
proof -
  have r1: "reachable seated"
    unfolding seated_def by (rule reachable_run) (rule reachable_new)
  have r2: "reachable wonA"
    unfolding wonA_def by (rule reachable_run) (rule r1)
  have j: "fst (exec (Join ''p3'') seated) = Some GAME_FULL_MESSAGE"
    by (simp add: seated_eq eval_defs)
  have l: "fst (exec (Leave ''p3'') seated) = Some PLAYER_NOT_IN_GAME_MESSAGE"
    by (simp add: seated_eq eval_defs)
  have m: "fst (exec (ApplyMove (makeMove ''p2'' BoardA 1 1)) wonA) = Some INVALID_MOVE_MESSAGE"
    by (simp add: wonA_def seated_eq eval_defs)
  show ?thesis
    using j l m C4_rejected_call_leaves_state[OF r1 j] C4_rejected_call_leaves_state[OF r1 l]
      C4_rejected_call_leaves_state[OF r2 m]
    by simp
qed

subsection \<open>C5: the end of the match\<close>

text \<open>
  C5. After every accepted move, the match is over if and only if all three boards are
  over; when it is over, the winner is the seat with the strictly higher score, and the
  winner is unset exactly when the two scores are equal.
\<close>

theorem C5_match_over_iff_boards_over:
  "reachable q \<Longrightarrow> applyMove mv0 q = (None, q') \<Longrightarrow>
     (s_status q' = OVER \<longleftrightarrow> (\<forall>b. t_status (games q' b) = OVER)) \<and>
     (s_status q' = OVER \<longrightarrow>
        (s_xScore q' > s_oScore q' \<longrightarrow> s_winner q' = s_x q' \<and> s_x q' \<noteq> None) \<and>
        (s_xScore q' < s_oScore q' \<longrightarrow> s_winner q' = s_o q' \<and> s_o q' \<noteq> None) \<and>
        (s_winner q' = None \<longleftrightarrow> s_xScore q' = s_oScore q'))"
proof -
  assume r: "reachable q" and a: "applyMove mv0 q = (None, q')"
  obtain q2 where q': "q' = checkForGameEnding (checkForWins q2)"
    and st2: "s_status q2 = IN_PROGRESS" and st: "s_status q = IN_PROGRESS"
    and x: "s_x q2 = s_x q" and o: "s_o q2 = s_o q"
    using accepted_shape[OF a] by blast
  have seats: "s_x q \<noteq> None \<and> s_o q \<noteq> None" using seats_in_progress[OF r st] by simp
  let ?q3 = "checkForWins q2"
  have over: "s_status q' = OVER \<longleftrightarrow> (\<forall>b. t_status (games q' b) = OVER)"
    using st2 by (simp add: q' checkForGameEnding_status)
  have w: "s_winner q' =
     (if s_xScore q' > s_oScore q' then s_x q' else if s_xScore q' < s_oScore q' then s_o q' else None)"
    if "s_status q' = OVER"
    using that st2 checkForGameEnding_winner[of ?q3] by (simp add: q' checkForWins_scores)
  have sx: "s_x q' = s_x q" "s_o q' = s_o q" using x o by (simp_all add: q')
  show ?thesis using over w seats sx by auto
qed

text \<open>The last move of the full game of the tests: X wins two boards to one.\<close>

theorem C5_match_over_iff_boards_over_witness:
  "fst (applyMove (makeMove ''p1'' BoardC 2 2) lastMoveOpen) = None \<and>
   s_status (snd (applyMove (makeMove ''p1'' BoardC 2 2) lastMoveOpen)) = OVER \<and>
   (\<forall>b. t_status (games (snd (applyMove (makeMove ''p1'' BoardC 2 2) lastMoveOpen)) b) = OVER) \<and>
   s_xScore (snd (applyMove (makeMove ''p1'' BoardC 2 2) lastMoveOpen)) = 2 \<and>
   s_oScore (snd (applyMove (makeMove ''p1'' BoardC 2 2) lastMoveOpen)) = 1 \<and>
   s_winner (snd (applyMove (makeMove ''p1'' BoardC 2 2) lastMoveOpen)) = Some ''p1''"
proof -
  let ?q' = "snd (applyMove (makeMove ''p1'' BoardC 2 2) lastMoveOpen)"
  have r: "reachable lastMoveOpen"
    unfolding lastMoveOpen_def by (rule reachable_run) (rule reachable_seated)
  have a: "fst (applyMove (makeMove ''p1'' BoardC 2 2) lastMoveOpen) = None"
    by (simp add: lastMoveOpen_def seated_eq eval_defs)
  have s: "s_status ?q' = OVER"
    by (simp add: lastMoveOpen_def seated_eq eval_defs)
  have x: "s_xScore ?q' = 2" "s_oScore ?q' = 1" "s_x ?q' = Some ''p1''"
    by (simp_all add: lastMoveOpen_def seated_eq eval_defs)
  show ?thesis
    using C5_match_over_iff_boards_over[OF r accepted_pair[OF a]] a s x by simp
qed

subsection \<open>C6: a visible cell stays visible and closed\<close>

text \<open>
  C6. In every reachable state, once a cell is publicly visible it remains so after any
  sequence of calls, and every move that targets it afterwards is rejected (with
  \<^verbatim>\<open>INVALID_MOVE_MESSAGE\<close>, the state unchanged).
\<close>

theorem C6_visible_cell_stays_closed:
  "reachable q \<Longrightarrow> s_publiclyVisible q b r c \<Longrightarrow>
     s_publiclyVisible (run cs q) b r c \<and>
     (\<forall>mv. board (move mv) = b \<and> row (move mv) = r \<and> col (move mv) = c \<longrightarrow>
        applyMove mv (run cs q) = (Some INVALID_MOVE_MESSAGE, run cs q))"
proof -
  assume r: "reachable q" and v: "s_publiclyVisible q b r c"
  have v': "s_publiclyVisible (run cs q) b r c" using r v by (rule visible_kept_run)
  have i: "invariant (run cs q)" using reachable_invariant[OF reachable_run[OF r]] .
  show ?thesis using v' visible_cell_rejects[OF i] by auto
qed

text \<open>The cell A(0,0) after the collision of the tests.\<close>

theorem C6_visible_cell_stays_closed_witness:
  "s_publiclyVisible collided BoardA 0 0 \<and>
   s_publiclyVisible (run [ApplyMove (makeMove ''p1'' BoardA 1 1), Leave ''p2''] collided) BoardA 0 0 \<and>
   applyMove (makeMove ''p2'' BoardA 0 0) (run [ApplyMove (makeMove ''p1'' BoardA 1 1)] collided) =
     (Some INVALID_MOVE_MESSAGE, run [ApplyMove (makeMove ''p1'' BoardA 1 1)] collided)"
proof -
  have r: "reachable collided"
    unfolding collided_def by (rule reachable_run) (rule reachable_seated)
  have v: "s_publiclyVisible collided BoardA 0 0"
    by (simp add: collided_def seated_eq eval_defs)
  have t: "board (move (makeMove ''p2'' BoardA 0 0)) = BoardA \<and>
           row (move (makeMove ''p2'' BoardA 0 0)) = 0 \<and> col (move (makeMove ''p2'' BoardA 0 0)) = 0"
    by (simp add: makeMove_def)
  show ?thesis
    using C6_visible_cell_stays_closed[OF r v, of "[ApplyMove (makeMove ''p1'' BoardA 1 1), Leave ''p2'']"]
      C6_visible_cell_stays_closed[OF r v, of "[ApplyMove (makeMove ''p1'' BoardA 1 1)]"] v t
    by blast
qed

subsection \<open>C7: the scores\<close>





subsection \<open>C8: the turn index\<close>

text \<open>
  C8, as amended. The global turn index is incremented exactly once per accepted move,
  whether or not the move collided. The synthesized passes do not advance it: each only
  lengthens by one the log of the board that receives it, and so does the move on the
  targeted board.
\<close>

theorem C8_one_increment_per_move:
  "applyMove mv0 q = (None, q') \<Longrightarrow>
     moveCount q' = moveCount q + 1 \<and>
     (\<forall>b. length (t_moves (games q' b)) =
            length (t_moves (games q b)) + (if t_status (games q b) = IN_PROGRESS then 1 else 0))"
proof -
  assume a: "applyMove mv0 q = (None, q')"
  obtain q2 where q': "q' = checkForGameEnding (checkForWins q2)"
    and q2: "q2 = snd (placeMove (cleanMove mv0 q) q)"
    and f: "fst (placeMove (cleanMove mv0 q) q) = None"
    using accepted_shape[OF a] by blast
  show ?thesis using placeMove_counts[OF f] by (simp add: q' q2)
qed

text \<open>A collision advances the turn index by one.\<close>

theorem C8_one_increment_per_move_witness:
  "fst (applyMove (makeMove ''p2'' BoardA 0 0) opened) = None \<and>
   moveCount (snd (applyMove (makeMove ''p2'' BoardA 0 0) opened)) = moveCount opened + 1 \<and>
   moveCount opened = 1 \<and>
   length (t_moves (games (snd (applyMove (makeMove ''p2'' BoardA 0 0) opened)) BoardC)) = 2"
proof -
  have a: "fst (applyMove (makeMove ''p2'' BoardA 0 0) opened) = None"
    by (simp add: opened_def seated_eq eval_defs)
  have m: "moveCount opened = 1" "length (t_moves (games opened BoardC)) = 1"
    "t_status (games opened BoardC) = IN_PROGRESS"
    by (simp_all add: opened_def seated_eq eval_defs)
  show ?thesis
    using C8_one_increment_per_move[OF accepted_pair[OF a]] a m by simp
qed

text \<open>
  The claim as stated fails: X's first move synthesizes two passes, one on board B and
  one on board C, and the turn index goes from 0 to 1, not to 3.
\<close>

theorem C8_counterexample:
  "fst (applyMove (makeMove ''p1'' BoardA 0 0) seated) = None \<and>
   games (snd (applyMove (makeMove ''p1'' BoardA 0 0) seated)) BoardB =
     applyPassMove PieceX (games seated BoardB) \<and>
   games (snd (applyMove (makeMove ''p1'' BoardA 0 0) seated)) BoardC =
     applyPassMove PieceX (games seated BoardC) \<and>
   moveCount seated = 0 \<and>
   moveCount (snd (applyMove (makeMove ''p1'' BoardA 0 0) seated)) = 1"
  by (simp add: seated_eq eval_defs)

subsection \<open>C9: the mark of a move\<close>

text \<open>
  C9, as amended. \<^verbatim>\<open>applyMove\<close> has no seat check and never rejects a move with
  \<^verbatim>\<open>PLAYER_NOT_IN_GAME_MESSAGE\<close>: the move of any player who is not seated as X (the
  player seated as O, or one who occupies neither seat) is treated as a move of O. The
  mark of a move is derived from the submitting player (X if seated as X, O otherwise)
  and never taken from the mark the caller supplies: the supplied mark has no influence
  on the call, and an accepted move is logged with the derived mark.
\<close>

theorem C9_mark_from_seat_no_seat_check:
  "reachable q \<Longrightarrow>
     fst (applyMove mv0 q) \<noteq> Some PLAYER_NOT_IN_GAME_MESSAGE \<and>
     applyMove (mv0\<lparr>move := (move mv0)\<lparr>gamePiece := g\<rparr>\<rparr>) q = applyMove mv0 q \<and>
     (fst (applyMove mv0 q) = None \<longrightarrow>
        s_moves (snd (applyMove mv0 q)) =
          s_moves q @ [(move mv0)\<lparr>gamePiece := (if Some (playerID mv0) = s_x q then PieceX else PieceO)\<rparr>])"
proof -
  assume r: "reachable q"
  have g: "\<forall>b. gridOK (games q b)"
    using reachable_invariant[OF r] by (simp add: invariant_def)
  have 1: "fst (applyMove mv0 q) \<noteq> Some PLAYER_NOT_IN_GAME_MESSAGE"
  proof
    assume "fst (applyMove mv0 q) = Some PLAYER_NOT_IN_GAME_MESSAGE"
    then have "validateMove (cleanMove mv0 q) q = Some PLAYER_NOT_IN_GAME_MESSAGE"
      using applyMove_rejected[OF g] by blast
    then show False using codeOrder_errors by (fastforce simp add: validateMove_codeOrder)
  qed
  have 2: "applyMove (mv0\<lparr>move := (move mv0)\<lparr>gamePiece := g\<rparr>\<rparr>) q = applyMove mv0 q"
    by (rule applyMove_via_cleanMove) (rule cleanMove_ignores_mark)
  have 3: "s_moves (snd (applyMove mv0 q)) =
          s_moves q @ [(move mv0)\<lparr>gamePiece := (if Some (playerID mv0) = s_x q then PieceX else PieceO)\<rparr>]"
    if a: "fst (applyMove mv0 q) = None"
  proof -
    obtain q2 where q': "snd (applyMove mv0 q) = checkForGameEnding (checkForWins q2)"
      and q2: "q2 = snd (placeMove (cleanMove mv0 q) q)"
      and f: "fst (placeMove (cleanMove mv0 q) q) = None"
      using accepted_shape[OF accepted_pair[OF a]] by blast
    show ?thesis using placeMove_counts(2)[OF f] by (simp add: q' q2 cleanMove_def)
  qed
  show ?thesis using 1 2 3 by blast
qed

text \<open>The player seated as X submits a move marked O: it is played as X.\<close>

theorem C9_mark_from_seat_no_seat_check_witness:
  "fst (applyMove (makeMove ''p1'' BoardB 2 2) collided) = None \<and>
   applyMove ((makeMove ''p1'' BoardB 2 2)\<lparr>move := (move (makeMove ''p1'' BoardB 2 2))\<lparr>gamePiece := PieceO\<rparr>\<rparr>) collided =
     applyMove (makeMove ''p1'' BoardB 2 2) collided \<and>
   s_moves (snd (applyMove (makeMove ''p1'' BoardB 2 2) collided)) =
     s_moves collided @ [\<lparr>row = 2, col = 2, gamePiece = PieceX, board = BoardB\<rparr>]"
proof -
  have r: "reachable collided"
    unfolding collided_def by (rule reachable_run) (rule reachable_seated)
  have a: "fst (applyMove (makeMove ''p1'' BoardB 2 2) collided) = None"
    by (simp add: collided_def seated_eq eval_defs)
  have x: "s_x collided = Some ''p1''"
    by (simp add: collided_def seated_eq eval_defs)
  show ?thesis
    using C9_mark_from_seat_no_seat_check[OF r, of "makeMove ''p1'' BoardB 2 2" PieceO] a x
    by (simp add: makeMove_def)
qed

text \<open>
  The claim as stated fails: after X's first move, a move of a player who occupies
  neither seat is accepted, and logged as a move of O.
\<close>

theorem C9_counterexample:
  "s_x opened \<noteq> Some ''p3'' \<and> s_o opened \<noteq> Some ''p3'' \<and>
   fst (applyMove (makeMove ''p3'' BoardB 0 0) opened) = None \<and>
   s_moves (snd (applyMove (makeMove ''p3'' BoardB 0 0) opened)) =
     s_moves opened @ [\<lparr>row = 0, col = 0, gamePiece = PieceO, board = BoardB\<rparr>]"
  by (simp add: opened_def seated_eq eval_defs)

subsection \<open>C10: the move log and the turn counter\<close>

text \<open>
  C10. After every successful \<^verbatim>\<open>join\<close>, \<^verbatim>\<open>leave\<close> or \<^verbatim>\<open>applyMove\<close>, the global move log
  is as long as the turn counter \<^verbatim>\<open>_moveCount\<close>; hence the next move to be accepted bears
  the mark given by the parity of the length of the log (X when even, O when odd), and
  is appended to it.
\<close>

theorem C10_log_length_is_turn_counter:
  "reachable q \<Longrightarrow> fst (exec c q) = None \<Longrightarrow>
     length (s_moves (snd (exec c q))) = moveCount (snd (exec c q)) \<and>
     (\<forall>mv. fst (applyMove mv (snd (exec c q))) = None \<longrightarrow>
        gamePiece (move (cleanMove mv (snd (exec c q)))) =
          (if even (length (s_moves (snd (exec c q)))) then PieceX else PieceO) \<and>
        s_moves (snd (applyMove mv (snd (exec c q)))) =
          s_moves (snd (exec c q)) @ [move (cleanMove mv (snd (exec c q)))])"
proof -
  assume r: "reachable q"
  let ?q = "snd (exec c q)"
  have r': "reachable ?q" using r by (rule reachable_step)
  have len: "length (s_moves ?q) = moveCount ?q"
    using reachable_invariant[OF r'] by (simp add: invariant_def logOK_def)
  have nxt: "gamePiece (move (cleanMove mv ?q)) = (if even (length (s_moves ?q)) then PieceX else PieceO) \<and>
        s_moves (snd (applyMove mv ?q)) = s_moves ?q @ [move (cleanMove mv ?q)]"
    if acc: "fst (applyMove mv ?q) = None" for mv
  proof (cases mv ?q rule: applyMove_cases)
    case (rejected e)
    then show ?thesis using acc by simp
  next
    case (failed e)
    then show ?thesis using acc by simp
  next
    case accepted
    have "codeOrder (cleanMove mv ?q) ?q = None"
      using accepted(1) by (simp add: validateMove_codeOrder)
    then have "\<not> outOfTurn (cleanMove mv ?q) ?q"
      by (simp add: codeOrder_def split: if_splits)
    then have p: "gamePiece (move (cleanMove mv ?q)) = (if even (length (s_moves ?q)) then PieceX else PieceO)"
      using len by (simp add: outOfTurn_def)
    obtain V G where "snd (placeMove (cleanMove mv ?q) ?q) =
            ?q\<lparr>s_publiclyVisible := V, moveCount := moveCount ?q + 1,
              s_moves := s_moves ?q @ [move (cleanMove mv ?q)], games := G\<rparr>"
      using placeMove_shape[of "cleanMove mv ?q" ?q] by blast
    then have "s_moves (snd (applyMove mv ?q)) = s_moves ?q @ [move (cleanMove mv ?q)]"
      using accepted(3) by simp
    then show ?thesis using p by simp
  qed
  show ?thesis using len nxt by blast
qed

text \<open>After X's first move the log has one entry, and the next accepted move is O's.\<close>

theorem C10_log_length_is_turn_counter_witness:
  "fst (exec (ApplyMove (makeMove ''p1'' BoardA 0 0)) seated) = None \<and>
   length (s_moves (snd (exec (ApplyMove (makeMove ''p1'' BoardA 0 0)) seated))) = 1 \<and>
   moveCount (snd (exec (ApplyMove (makeMove ''p1'' BoardA 0 0)) seated)) = 1 \<and>
   fst (applyMove (makeMove ''p2'' BoardB 0 0)
          (snd (exec (ApplyMove (makeMove ''p1'' BoardA 0 0)) seated))) = None \<and>
   gamePiece (move (cleanMove (makeMove ''p2'' BoardB 0 0)
          (snd (exec (ApplyMove (makeMove ''p1'' BoardA 0 0)) seated)))) = PieceO"
proof -
  let ?q = "snd (exec (ApplyMove (makeMove ''p1'' BoardA 0 0)) seated)"
  have r: "reachable seated"
    unfolding seated_def by (rule reachable_run) (rule reachable_new)
  have a: "fst (exec (ApplyMove (makeMove ''p1'' BoardA 0 0)) seated) = None"
    by (simp add: seated_eq eval_defs)
  have l: "length (s_moves ?q) = 1"
    by (simp add: seated_eq eval_defs)
  have n: "fst (applyMove (makeMove ''p2'' BoardB 0 0) ?q) = None"
    by (simp add: seated_eq eval_defs)
  show ?thesis
    using C10_log_length_is_turn_counter[OF r a] a l n by simp
qed

end
